theory Spec2Isabelle
  imports Complex_Main
begin

section \<open>Tensors\<close>

text \<open>
  The harness \<^verbatim>\<open>fast_debug.py\<close> works on two-dimensional torch tensors. A tensor of
  shape \<open>(M, K)\<close> is a record of its column count and the list of its \<open>M\<close> rows;
  the column count is kept apart from the rows so that a tensor of shape \<open>(0, K)\<close>
  still knows \<open>K\<close>, which is what torch's shape checks look at.
  The elements of the reference computation are taken from a commutative semiring:
  sums and products are exact, rounding is not part of the model.
\<close>

record 'a tensor =
  ncols :: nat
  rws :: "'a list list"

definition nrows :: "'a tensor \<Rightarrow> nat" where
  "nrows t = length (rws t)"

definition wf_tensor :: "'a tensor \<Rightarrow> bool" where
  "wf_tensor t = list_all (\<lambda>r. length r = ncols t) (rws t)"

definition entry :: "'a tensor \<Rightarrow> nat \<Rightarrow> nat \<Rightarrow> 'a" where
  "entry t i j = rws t ! i ! j"

datatype error =
    MatmulShapeError
  | AssignShapeError
  | GradShapeError
  | NoGradError
  | BroadcastError
  | ArgmaxEmptyError

text \<open>\<^verbatim>\<open>torch.zeros((m, n))\<close>.\<close>

definition zeros :: "nat \<Rightarrow> nat \<Rightarrow> ('a::comm_semiring_0) tensor" where
  "zeros m n = \<lparr>ncols = n, rws = replicate m (replicate n 0)\<rparr>"

text \<open>
  Python and torch slices \<^verbatim>\<open>t[s:e]\<close> never raise: a negative bound counts from the
  end, and both bounds are clamped to the length.
\<close>

definition slice_index :: "int \<Rightarrow> nat \<Rightarrow> nat" where
  "slice_index i n = (if i < 0 then nat (max (i + int n) 0) else min (nat i) n)"

definition slice_list :: "int \<Rightarrow> int \<Rightarrow> 'a list \<Rightarrow> 'a list" where
  "slice_list s e xs =
     (let a = slice_index s (length xs); b = slice_index e (length xs)
      in take (b - a) (drop a xs))"

definition slice_rows :: "int \<Rightarrow> int \<Rightarrow> 'a tensor \<Rightarrow> 'a tensor" where
  "slice_rows s e t = t\<lparr>rws := slice_list s e (rws t)\<rparr>"

text \<open>
  The slice assignment \<^verbatim>\<open>dst[s:e] = src\<close>. torch copies \<open>src\<close> into the selected
  rows when the shapes agree; a source of another shape is broadcast when one of its
  dimensions is 1 and is rejected otherwise. In the harness the source always has the
  shape of the selected rows, so only the equal-shape copy is modelled and every other
  shape is the error.
\<close>

definition set_rows :: "int \<Rightarrow> int \<Rightarrow> 'a tensor \<Rightarrow> 'a tensor \<Rightarrow> error + 'a tensor" where
  "set_rows s e src dst =
     (let a = slice_index s (nrows dst); b = slice_index e (nrows dst)
      in if nrows src = b - a \<and> ncols src = ncols dst
         then Inr (dst\<lparr>rws := take a (rws dst) @ rws src @ drop (a + (b - a)) (rws dst)\<rparr>)
         else Inl AssignShapeError)"

text \<open>\<^verbatim>\<open>w.T\<close>: the tensor of shape \<open>(K, N)\<close> whose rows are the columns of \<open>w\<close>.\<close>

definition transpose_t :: "'a tensor \<Rightarrow> 'a tensor" where
  "transpose_t t = \<lparr>ncols = nrows t, rws = map (\<lambda>k. map (\<lambda>r. r ! k) (rws t)) [0..<ncols t]\<rparr>"

definition dot :: "('a::comm_semiring_0) list \<Rightarrow> 'a list \<Rightarrow> 'a" where
  "dot u v = sum_list (map2 (*) u v)"

text \<open>
  The matrix product of an \<open>(m, k)\<close> with a \<open>(k, n)\<close> tensor: row \<open>i\<close>, column \<open>j\<close>
  is the dot product of row \<open>i\<close> of \<open>a\<close> with column \<open>j\<close> of \<open>b\<close>.
  \<^verbatim>\<open>torch.matmul\<close> raises a RuntimeError when the inner dimensions disagree, also
  when one of the operands has no rows.
\<close>

definition mm :: "('a::comm_semiring_0) tensor \<Rightarrow> 'a tensor \<Rightarrow> 'a tensor" where
  "mm a b = \<lparr>ncols = ncols b,
             rws = map (\<lambda>row. map (\<lambda>col. dot row col) (rws (transpose_t b))) (rws a)\<rparr>"

definition matmul :: "('a::comm_semiring_0) tensor \<Rightarrow> 'a tensor \<Rightarrow> error + 'a tensor" where
  "matmul a b = (if ncols a \<noteq> nrows b then Inl MatmulShapeError else Inr (mm a b))"

section \<open>The reference forward pass\<close>

text \<open>
  \<^verbatim>\<open>compute_reference_forward(x, w, m_sizes)\<close>. The loop over the groups carries
  \<open>m_start\<close> and \<open>result\<close>; \<open>m_sizes[g].item()\<close> is a Python integer, hence \<open>int\<close>.
  A group whose size is not positive is skipped altogether: neither the matmul nor
  the update of \<open>m_start\<close> runs. The third component of the state is what autograd
  records when \<open>x\<close> and \<open>w\<close> require gradients: one entry \<open>(m_start, m_end)\<close> for each
  group whose matmul and slice assignment were executed, in program order.
\<close>

fun forward_loop ::
  "('a::comm_semiring_0) tensor \<Rightarrow> 'a tensor \<Rightarrow> int list \<Rightarrow> int \<Rightarrow> 'a tensor \<Rightarrow> (int \<times> int) list
     \<Rightarrow> error + ('a tensor \<times> (int \<times> int) list)" where
  "forward_loop x w [] m_start result tape = Inr (result, tape)"
| "forward_loop x w (m_size # rest) m_start result tape =
     (if m_size > 0 then
        (let m_end = m_start + m_size;
             x_g = slice_rows m_start m_end x
         in case matmul x_g (transpose_t w) of
              Inl err \<Rightarrow> Inl err
            | Inr y_g \<Rightarrow>
                (case set_rows m_start m_end y_g result of
                   Inl err \<Rightarrow> Inl err
                 | Inr result' \<Rightarrow> forward_loop x w rest m_end result' (tape @ [(m_start, m_end)])))
      else forward_loop x w rest m_start result tape)"

definition forward_recorded ::
  "('a::comm_semiring_0) tensor \<Rightarrow> 'a tensor \<Rightarrow> int list \<Rightarrow> error + ('a tensor \<times> (int \<times> int) list)" where
  "forward_recorded x w m_sizes = forward_loop x w m_sizes 0 (zeros (nrows x) (nrows w)) []"

definition compute_reference_forward ::
  "('a::comm_semiring_0) tensor \<Rightarrow> 'a tensor \<Rightarrow> int list \<Rightarrow> error + 'a tensor" where
  "compute_reference_forward x w m_sizes =
     (case forward_recorded x w m_sizes of Inl err \<Rightarrow> Inl err | Inr (result, tape) \<Rightarrow> Inr result)"

section \<open>The reference backward pass\<close>

text \<open>
  \<^verbatim>\<open>compute_reference_backward(x, w, m_sizes, grad_output)\<close> runs the forward pass on
  copies of \<open>x\<close> and \<open>w\<close> that require gradients and calls
  \<^verbatim>\<open>output.backward(grad_output)\<close>. Autograd walks the recorded operations from the
  last to the first. For the group \<open>(s, e)\<close> the gradient reaching \<open>y_g\<close> through the
  slice assignment is \<open>g = grad_output[s:e]\<close>; the matmul \<open>x_g @ w.T\<close> sends
  \<open>g @ w\<close> to \<open>x_g\<close> and \<open>x_g.T @ g\<close> to \<open>w.T\<close>; the slice \<open>x[s:e]\<close> adds the
  former into rows \<open>s..e\<close> of \<open>x.grad\<close>, and the transpose adds the transpose of the
  latter to \<open>w.grad\<close>. Accumulation starts from zero.
\<close>

definition tensor_add :: "('a::comm_semiring_0) tensor \<Rightarrow> 'a tensor \<Rightarrow> 'a tensor" where
  "tensor_add a b = \<lparr>ncols = ncols a, rws = map2 (map2 (+)) (rws a) (rws b)\<rparr>"

definition add_rows :: "int \<Rightarrow> int \<Rightarrow> ('a::comm_semiring_0) tensor \<Rightarrow> 'a tensor \<Rightarrow> 'a tensor" where
  "add_rows s e src dst =
     (let a = slice_index s (nrows dst); b = slice_index e (nrows dst)
      in dst\<lparr>rws := take a (rws dst)
                      @ map2 (map2 (+)) (take (b - a) (drop a (rws dst))) (rws src)
                      @ drop (a + (b - a)) (rws dst)\<rparr>)"

definition backward_group ::
  "('a::comm_semiring_0) tensor \<Rightarrow> 'a tensor \<Rightarrow> 'a tensor \<Rightarrow> int \<times> int
     \<Rightarrow> 'a tensor \<times> 'a tensor \<Rightarrow> 'a tensor \<times> 'a tensor" where
  "backward_group x w grad_output se grads =
     (case se of (s, e) \<Rightarrow> case grads of (grad_x, grad_w) \<Rightarrow>
        (let g = slice_rows s e grad_output;
             x_g = slice_rows s e x
         in (add_rows s e (mm g w) grad_x,
             tensor_add grad_w (transpose_t (mm (transpose_t x_g) g)))))"

text \<open>
  \<^verbatim>\<open>backward\<close> raises a RuntimeError when \<open>grad_output\<close> has not the shape of
  \<open>output\<close>, and when \<open>output\<close> does not require a gradient, which is the case when
  no group was executed: \<open>output\<close> is then the untouched \<^verbatim>\<open>torch.zeros\<close> tensor.
\<close>

definition compute_reference_backward ::
  "('a::comm_semiring_0) tensor \<Rightarrow> 'a tensor \<Rightarrow> int list \<Rightarrow> 'a tensor
     \<Rightarrow> error + ('a tensor \<times> 'a tensor)" where
  "compute_reference_backward x w m_sizes grad_output =
     (case forward_recorded x w m_sizes of
        Inl err \<Rightarrow> Inl err
      | Inr (output, tape) \<Rightarrow>
          if nrows grad_output \<noteq> nrows output \<or> ncols grad_output \<noteq> ncols output
          then Inl GradShapeError
          else if tape = [] then Inl NoGradError
          else Inr (foldr (backward_group x w grad_output) tape
                      (zeros (nrows x) (ncols x), zeros (nrows w) (ncols w))))"

text \<open>The group boundaries of the specification: prefix sums of the group sizes.\<close>

definition offset :: "int list \<Rightarrow> nat \<Rightarrow> int" where
  "offset m_sizes g = sum_list (take g m_sizes)"

definition valid_sizes :: "int list \<Rightarrow> nat \<Rightarrow> bool" where
  "valid_sizes m_sizes m = (list_all (\<lambda>s. 0 \<le> s) m_sizes \<and> sum_list m_sizes = int m)"

section \<open>Auxiliary notions for the proofs\<close>

text \<open>
  The entries of the tape that the loop appends when it starts at \<open>p\<close>, one row of a
  product \<open>a @ b\<close>, a tensor given by its entries, and the sum over paired rows that
  is entry \<open>(n, k)\<close> of \<open>A.T @ B\<close>.
\<close>

fun ranges :: "int \<Rightarrow> int list \<Rightarrow> (int \<times> int) list" where
  "ranges p [] = []"
| "ranges p (s # rest) = (if s > 0 then (p, p + s) # ranges (p + s) rest else ranges p rest)"

definition row_mm :: "('a::comm_semiring_0) tensor \<Rightarrow> 'a list \<Rightarrow> 'a list" where
  "row_mm b row = map (dot row) (rws (transpose_t b))"

definition tabulate :: "nat \<Rightarrow> nat \<Rightarrow> (nat \<Rightarrow> nat \<Rightarrow> 'a) \<Rightarrow> 'a tensor" where
  "tabulate n k f = \<lparr>ncols = k, rws = map (\<lambda>i. map (f i) [0..<k]) [0..<n]\<rparr>"

definition colsum :: "('a::comm_semiring_0) list list \<Rightarrow> 'a list list \<Rightarrow> nat \<Rightarrow> nat \<Rightarrow> 'a" where
  "colsum A B n k = sum_list (map (\<lambda>(ra, rb). ra ! n * rb ! k) (zip A B))"

text \<open>The sum of a list of \<open>(n, k)\<close> tensors, as \<open>grad_W\<close> is specified.\<close>

definition tensor_sum :: "nat \<Rightarrow> nat \<Rightarrow> ('a::comm_semiring_0) tensor list \<Rightarrow> 'a tensor" where
  "tensor_sum n k ts = foldr tensor_add ts (zeros n k)"

section \<open>Comparing tensors\<close>

text \<open>
  \<^verbatim>\<open>analyze_tensor_differences\<close> compares floating-point tensors. An element is a
  value of IEEE arithmetic: a real number, an infinity or NaN. torch computes every
  elementwise operation in the dtype of the tensors, so the exact result of a
  subtraction, a product or a sum is rounded to a value of that dtype. The rounding
  depends on the dtype (float16 in the harness) and is the parameter \<open>rnd\<close> of the
  model: it maps the exact real result to the value that is stored, which may be an
  infinity. Absolute value and the comparisons are exact. NaN propagates through the
  arithmetic and makes every comparison false, and the difference of equal infinities
  is NaN.
\<close>

datatype fval = Fin real | PInf | NInf | NaN

fun fsub :: "(real \<Rightarrow> fval) \<Rightarrow> fval \<Rightarrow> fval \<Rightarrow> fval" where
  "fsub rnd NaN b = NaN"
| "fsub rnd a NaN = NaN"
| "fsub rnd (Fin a) (Fin b) = rnd (a - b)"
| "fsub rnd (Fin a) PInf = NInf"
| "fsub rnd (Fin a) NInf = PInf"
| "fsub rnd PInf PInf = NaN"
| "fsub rnd PInf b = PInf"
| "fsub rnd NInf NInf = NaN"
| "fsub rnd NInf b = NInf"

fun fabs :: "fval \<Rightarrow> fval" where
  "fabs (Fin a) = Fin \<bar>a\<bar>"
| "fabs PInf = PInf"
| "fabs NInf = PInf"
| "fabs NaN = NaN"

fun scale :: "(real \<Rightarrow> fval) \<Rightarrow> real \<Rightarrow> fval \<Rightarrow> fval" where
  "scale rnd r (Fin b) = rnd (r * b)"
| "scale rnd r PInf = (if 0 < r then PInf else if r < 0 then NInf else NaN)"
| "scale rnd r NInf = (if 0 < r then NInf else if r < 0 then PInf else NaN)"
| "scale rnd r NaN = NaN"

fun shift :: "(real \<Rightarrow> fval) \<Rightarrow> real \<Rightarrow> fval \<Rightarrow> fval" where
  "shift rnd r (Fin b) = rnd (r + b)"
| "shift rnd r v = v"

fun fle :: "fval \<Rightarrow> fval \<Rightarrow> bool" where
  "fle NaN b = False"
| "fle a NaN = False"
| "fle NInf b = True"
| "fle a PInf = True"
| "fle (Fin a) (Fin b) = (a \<le> b)"
| "fle a b = False"

definition flt :: "fval \<Rightarrow> fval \<Rightarrow> bool" where
  "flt a b = (fle a b \<and> \<not> fle b a)"

definition feq :: "fval \<Rightarrow> fval \<Rightarrow> bool" where
  "feq a b = (fle a b \<and> fle b a)"

definition is_nan :: "fval \<Rightarrow> bool" where
  "is_nan v = (v = NaN)"

fun is_finite :: "fval \<Rightarrow> bool" where
  "is_finite (Fin a) = True"
| "is_finite v = False"

text \<open>
  \<^verbatim>\<open>torch.isclose\<close> with \<open>equal_nan = False\<close>: equal values are close, and so are
  values whose difference is finite and at most \<open>atol + |rtol * b|\<close>, where the
  product, the sum and the difference are each computed, and rounded, in the dtype of
  the tensors; \<^verbatim>\<open>torch.allclose\<close> asks it of every pair of elements.
\<close>

definition isclose :: "(real \<Rightarrow> fval) \<Rightarrow> real \<Rightarrow> real \<Rightarrow> fval \<Rightarrow> fval \<Rightarrow> bool" where
  "isclose rnd rtol atol a b =
     (let allowed_error = shift rnd atol (fabs (scale rnd rtol b));
          actual_error = fabs (fsub rnd a b)
      in feq a b \<or> (is_finite actual_error \<and> fle actual_error allowed_error))"

definition allclose ::
  "(real \<Rightarrow> fval) \<Rightarrow> real \<Rightarrow> real \<Rightarrow> fval tensor \<Rightarrow> fval tensor \<Rightarrow> bool" where
  "allclose rnd rtol atol a b =
     list_all (\<lambda>(ra, rb). list_all (\<lambda>(u, v). isclose rnd rtol atol u v) (zip ra rb))
       (zip (rws a) (rws b))"

definition flatten :: "'a tensor \<Rightarrow> 'a list" where
  "flatten t = concat (rws t)"

definition numel :: "'a tensor \<Rightarrow> nat" where
  "numel t = nrows t * ncols t"

text \<open>
  \<^verbatim>\<open>argmax\<close> and \<^verbatim>\<open>max\<close> of the flattened tensor: the first NaN when there is one,
  otherwise the first greatest element. Both raise on a tensor without elements.
\<close>

definition better :: "fval \<Rightarrow> fval \<Rightarrow> bool" where
  "better v best = (\<not> is_nan best \<and> (is_nan v \<or> flt best v))"

fun argmax_scan :: "fval list \<Rightarrow> nat \<Rightarrow> nat \<Rightarrow> fval \<Rightarrow> nat" where
  "argmax_scan [] i best_i best = best_i"
| "argmax_scan (v # vs) i best_i best =
     (if better v best then argmax_scan vs (Suc i) i v else argmax_scan vs (Suc i) best_i best)"

definition argmax :: "fval list \<Rightarrow> error + nat" where
  "argmax vs = (case vs of [] \<Rightarrow> Inl ArgmaxEmptyError | v # rest \<Rightarrow> Inr (argmax_scan rest 1 0 v))"

fun max_scan :: "fval list \<Rightarrow> fval \<Rightarrow> fval" where
  "max_scan [] best = best"
| "max_scan (v # vs) best = (if better v best then max_scan vs v else max_scan vs best)"

definition fmax :: "fval list \<Rightarrow> error + fval" where
  "fmax vs = (case vs of [] \<Rightarrow> Inl ArgmaxEmptyError | v # rest \<Rightarrow> Inr (max_scan rest v))"

definition unravel_index :: "nat \<Rightarrow> nat \<Rightarrow> nat \<times> nat" where
  "unravel_index i c = (i div c, i mod c)"

definition count_where :: "('a \<Rightarrow> bool) \<Rightarrow> 'a tensor \<Rightarrow> nat" where
  "count_where P t = length (filter P (flatten t))"

text \<open>
  What the function writes with \<^verbatim>\<open>logging.info\<close> and \<^verbatim>\<open>logging.error\<close>, in
  order; the function is modelled as returning its result together with these records.
  The percentages of the two zero-count lines divide by \<open>numel\<close>, which is positive
  once \<^verbatim>\<open>argmax\<close> has returned.
\<close>

datatype log_record =
    LargestDifference string fval "nat \<times> nat"
  | Values fval fval
  | Success string
  | Failure string
  | ZerosActual string nat nat
  | ZerosExpected string nat nat
  | NaNDetected string nat

text \<open>\<^verbatim>\<open>(actual - expected).abs()\<close>, flattened row by row.\<close>

definition flat_diff :: "(real \<Rightarrow> fval) \<Rightarrow> fval tensor \<Rightarrow> fval tensor \<Rightarrow> fval list" where
  "flat_diff rnd actual expected =
     map2 (\<lambda>a e. fabs (fsub rnd a e)) (flatten actual) (flatten expected)"

text \<open>
  Tensors of different shapes are outside the model (torch would broadcast them or
  raise); the harness compares a result with a reference of the same shape.
\<close>

definition analyze_tensor_differences ::
  "(real \<Rightarrow> fval) \<Rightarrow> fval tensor \<Rightarrow> fval tensor \<Rightarrow> string
     \<Rightarrow> error + (bool \<times> log_record list)" where
  "analyze_tensor_differences rnd actual expected name =
     (let rtol = 1/2; atol = 1/2 in
      if nrows actual \<noteq> nrows expected \<or> ncols actual \<noteq> ncols expected then Inl BroadcastError
      else
        let diff = flat_diff rnd actual expected in
        case argmax diff of
          Inl err \<Rightarrow> Inl err
        | Inr max_idx \<Rightarrow>
            (case fmax diff of
               Inl err \<Rightarrow> Inl err
             | Inr max_diff \<Rightarrow>
                 let idx = unravel_index max_idx (ncols actual);
                     log1 = [LargestDifference name max_diff idx,
                             Values (entry actual (fst idx) (snd idx)) (entry expected (fst idx) (snd idx))];
                     is_close = allclose rnd rtol atol actual expected
                 in if is_close then Inr (is_close, log1 @ [Success name])
                    else
                      let zeros_actual = count_where (\<lambda>v. feq v (Fin 0)) actual;
                          zeros_expected = count_where (\<lambda>v. feq v (Fin 0)) expected;
                          log2 = log1 @ [Failure name,
                                         ZerosActual name zeros_actual (numel actual),
                                         ZerosExpected name zeros_expected (numel expected)];
                          nan_actual = count_where is_nan actual
                      in Inr (is_close, if nan_actual > 0 then log2 @ [NaNDetected name nan_actual] else log2)))"

definition diff_at :: "(real \<Rightarrow> fval) \<Rightarrow> fval tensor \<Rightarrow> fval tensor \<Rightarrow> nat \<Rightarrow> nat \<Rightarrow> fval" where
  "diff_at rnd actual expected i j = fabs (fsub rnd (entry actual i j) (entry expected i j))"

text \<open>
  Two roundings for the examples: none at all, which is what every dtype does on
  operations whose exact result it can represent, and rounding to the nearest
  integer with ties to the even one, which is what float16 does on results between
  1024 and 2048.
\<close>

definition no_rounding :: "real \<Rightarrow> fval" where
  "no_rounding r = Fin r"

definition round_to_integer :: "real \<Rightarrow> fval" where
  "round_to_integer r =
     (let f = \<lfloor>r\<rfloor>; d = r - of_int f
      in if d < 1/2 then Fin (of_int f)
         else if 1/2 < d then Fin (of_int (f + 1))
         else if even f then Fin (of_int f) else Fin (of_int (f + 1)))"

section \<open>The sweep over the configurations\<close>

text \<open>
  \<^verbatim>\<open>test_multiple_deepseek_configs\<close> runs the same statements for each configuration
  inside \<^verbatim>\<open>try\<close>. They draw random tensors and call the grouped GEMM under test,
  which is not part of this file, so what they do is a parameter \<open>body\<close> of the
  model: for the configuration at \<open>config_idx\<close> it either raises (\<open>Inl\<close>) or delivers
  \<open>forward_close\<close>, \<open>grad_x_close\<close> and \<open>grad_w_close\<close>.
\<close>

type_synonym config = "nat \<times> nat \<times> nat \<times> nat"

definition configs :: "config list" where
  "configs = [(4, 8192, 7168, 4096), (4, 8192, 2048, 7168), (8, 4096, 7168, 4096), (8, 4096, 2048, 7168)]"

type_synonym config_result = "nat \<times> bool \<times> bool \<times> bool"

fun sweep_loop ::
  "(nat \<Rightarrow> config \<Rightarrow> error + bool \<times> bool \<times> bool) \<Rightarrow> nat \<Rightarrow> config list
     \<Rightarrow> config_result list \<Rightarrow> config_result list" where
  "sweep_loop body config_idx [] results = results"
| "sweep_loop body config_idx (c # cs) results =
     (case body config_idx c of
        Inr (forward_close, grad_x_close, grad_w_close) \<Rightarrow>
          (let backward_close = grad_x_close \<and> grad_w_close;
               config_success = forward_close \<and> backward_close
           in sweep_loop body (Suc config_idx) cs
                (results @ [(config_idx + 1, config_success, forward_close, backward_close)]))
      | Inl e \<Rightarrow>
          sweep_loop body (Suc config_idx) cs (results @ [(config_idx + 1, False, False, False)]))"

definition sweep_results :: "(nat \<Rightarrow> config \<Rightarrow> error + bool \<times> bool \<times> bool) \<Rightarrow> config_result list" where
  "sweep_results body = sweep_loop body 0 configs []"

definition test_multiple_deepseek_configs :: "(nat \<Rightarrow> config \<Rightarrow> error + bool \<times> bool \<times> bool) \<Rightarrow> bool" where
  "test_multiple_deepseek_configs body =
     list_all (\<lambda>(config_idx, overall_success, forward_success, backward_success). overall_success)
       (sweep_results body)"

text \<open>The entry that one configuration contributes, and what it means to pass.\<close>

definition config_entry :: "nat \<Rightarrow> error + bool \<times> bool \<times> bool \<Rightarrow> config_result" where
  "config_entry i out =
     (case out of Inl e \<Rightarrow> (i + 1, False, False, False)
      | Inr (f, gx, gw) \<Rightarrow> (i + 1, f \<and> gx \<and> gw, f, gx \<and> gw))"

definition config_passed :: "error + bool \<times> bool \<times> bool \<Rightarrow> bool" where
  "config_passed out = (out = Inr (True, True, True))"

section \<open>Example inputs\<close>

definition ex_x :: "int tensor" where
  "ex_x = \<lparr>ncols = 2, rws = [[1, 2], [3, 4], [5, 6]]\<rparr>"

definition ex_w :: "int tensor" where
  "ex_w = \<lparr>ncols = 2, rws = [[1, 0], [0, 1], [1, 1]]\<rparr>"


definition ex_y :: "int tensor" where
  "ex_y = \<lparr>ncols = 3, rws = [[1, 2, 3], [3, 4, 7], [5, 6, 11]]\<rparr>"

definition ex_gy :: "int tensor" where
  "ex_gy = \<lparr>ncols = 3, rws = [[1, 0, 0], [0, 1, 0], [1, 1, 1]]\<rparr>"

definition ex_x0 :: "int tensor" where
  "ex_x0 = \<lparr>ncols = 2, rws = []\<rparr>"

definition ex_gy0 :: "int tensor" where
  "ex_gy0 = \<lparr>ncols = 3, rws = []\<rparr>"

definition ex_gx :: "int tensor" where
  "ex_gx = \<lparr>ncols = 2, rws = [[1, 0], [0, 1], [2, 2]]\<rparr>"

definition ex_gw :: "int tensor" where
  "ex_gw = \<lparr>ncols = 2, rws = [[6, 8], [8, 10], [5, 6]]\<rparr>"

definition ex_actual :: "fval tensor" where
  "ex_actual = \<lparr>ncols = 2, rws = [[Fin 1, Fin 0], [Fin 3, Fin 7]]\<rparr>"

definition ex_expected :: "fval tensor" where
  "ex_expected = \<lparr>ncols = 2, rws = [[Fin 1, Fin 2], [Fin (7/2), Fin 0]]\<rparr>"

definition ex_body :: "nat \<Rightarrow> config \<Rightarrow> error + bool \<times> bool \<times> bool" where
  "ex_body i c = (if i = 1 then Inl MatmulShapeError else Inr (True, True, True))"

section \<open>Shapes, slices and products\<close>

lemma nrows_zeros [simp]: "nrows (zeros m n) = m"
  by (simp add: nrows_def zeros_def)

lemma ncols_zeros [simp]: "ncols (zeros m n) = n"
  by (simp add: zeros_def)

lemma wf_zeros [simp]: "wf_tensor (zeros m n)"
  by (simp add: wf_tensor_def zeros_def list_all_iff)

lemma slice_index_le: "slice_index i n \<le> n"
  by (auto simp: slice_index_def)

lemma slice_index_nat [simp]: "slice_index (int p) n = min p n"
  by (simp add: slice_index_def)

lemma length_slice_list:
  "length (slice_list s e xs) = slice_index e (length xs) - slice_index s (length xs)"
  using slice_index_le[of e "length xs"] by (simp add: slice_list_def Let_def)

lemma slice_list_map: "slice_list s e (map f xs) = map f (slice_list s e xs)"
  by (simp add: slice_list_def Let_def take_map drop_map)

lemma slice_list_nat:
  "p + k \<le> length xs \<Longrightarrow> slice_list (int p) (int p + int k) xs = take k (drop p xs)"
proof -
  assume a: "p + k \<le> length xs"
  have "int p + int k = int (p + k)" by simp
  then show ?thesis using a unfolding slice_list_def Let_def
    by (simp only: slice_index_nat) (simp add: min_def)
qed

lemma ncols_slice_rows [simp]: "ncols (slice_rows s e t) = ncols t"
  by (simp add: slice_rows_def)

lemma nrows_slice_rows:
  "nrows (slice_rows s e t) = slice_index e (nrows t) - slice_index s (nrows t)"
  by (simp add: nrows_def slice_rows_def length_slice_list)

lemma nrows_transpose [simp]: "nrows (transpose_t t) = ncols t"
  by (simp add: nrows_def transpose_t_def)

lemma ncols_transpose [simp]: "ncols (transpose_t t) = nrows t"
  by (simp add: transpose_t_def)

lemma nrows_mm [simp]: "nrows (mm a b) = nrows a"
  by (simp add: mm_def nrows_def)

lemma ncols_mm [simp]: "ncols (mm a b) = ncols b"
  by (simp add: mm_def)

lemma wf_mm [simp]: "wf_tensor (mm a b)"
  by (simp add: mm_def wf_tensor_def list_all_iff nrows_def[symmetric])

lemma mm_rows: "mm a b = \<lparr>ncols = ncols b, rws = map (row_mm b) (rws a)\<rparr>"
  by (simp add: mm_def row_mm_def)

lemma length_row_mm [simp]: "length (row_mm b row) = ncols b"
  by (simp add: row_mm_def transpose_t_def)

lemma slice_rows_mm: "slice_rows s e (mm a b) = mm (slice_rows s e a) b"
  by (simp add: mm_def slice_rows_def slice_list_map)

lemma matmul_slice_transpose:
  "ncols x = ncols w \<Longrightarrow>
   matmul (slice_rows s e x) (transpose_t w) = Inr (mm (slice_rows s e x) (transpose_t w))"
  by (simp add: matmul_def)


lemma set_rows_ok:
  assumes "nrows src = slice_index e (nrows dst) - slice_index s (nrows dst)" "ncols src = ncols dst"
  shows "set_rows s e src dst =
     Inr (dst\<lparr>rws := take (slice_index s (nrows dst)) (rws dst) @ rws src
              @ drop (slice_index s (nrows dst)
                      + (slice_index e (nrows dst) - slice_index s (nrows dst))) (rws dst)\<rparr>)"
  using assms by (simp add: set_rows_def Let_def)

lemma nrows_set_rows:
  assumes "set_rows s e src dst = Inr r"
  shows "nrows r = nrows dst \<and> ncols r = ncols dst"
proof -
  have "slice_index s (nrows dst) \<le> nrows dst" "slice_index e (nrows dst) \<le> nrows dst"
    by (rule slice_index_le)+
  then show ?thesis using assms
    by (auto simp: set_rows_def Let_def nrows_def split: if_splits)
qed

lemma wf_set_rows:
  assumes "set_rows s e src dst = Inr r" "wf_tensor src" "wf_tensor dst"
  shows "wf_tensor r"
  using assms
  by (auto simp: set_rows_def Let_def wf_tensor_def list_all_iff split: if_splits
           dest!: in_set_takeD in_set_dropD)

section \<open>The forward loop\<close>

lemma forward_loop_positive:
  "forward_loop x w (filter (\<lambda>s. 0 < s) m_sizes) m_start result tape
     = forward_loop x w m_sizes m_start result tape"
  by (induction m_sizes arbitrary: m_start result tape) (auto simp: Let_def split: sum.splits)



lemma forward_loop_success:
  assumes "ncols x = ncols w"
  shows "nrows result = nrows x \<Longrightarrow> ncols result = nrows w \<Longrightarrow> wf_tensor result \<Longrightarrow>
    \<exists>r. forward_loop x w m_sizes m_start result tape = Inr (r, tape @ ranges m_start m_sizes)
       \<and> nrows r = nrows x \<and> ncols r = nrows w \<and> wf_tensor r"
proof (induction m_sizes arbitrary: m_start result tape)
  case Nil
  then show ?case by simp
next
  case (Cons m_size rest)
  show ?case
  proof (cases "m_size > 0")
    case False
    then show ?thesis using Cons by simp
  next
    case True
    let ?e = "m_start + m_size"
    let ?y = "mm (slice_rows m_start ?e x) (transpose_t w)"
    have prod: "matmul (slice_rows m_start ?e x) (transpose_t w) = Inr ?y"
      using assms by (rule matmul_slice_transpose)
    have "nrows ?y = slice_index ?e (nrows result) - slice_index m_start (nrows result)"
      using Cons.prems by (simp add: nrows_slice_rows)
    moreover have "ncols ?y = ncols result" using Cons.prems by simp
    ultimately obtain r' where r': "set_rows m_start ?e ?y result = Inr r'"
      using set_rows_ok by blast
    have "nrows r' = nrows x" "ncols r' = nrows w" "wf_tensor r'"
      using nrows_set_rows[OF r'] wf_set_rows[OF r'] Cons.prems by simp_all
    from Cons.IH[OF this, of ?e "tape @ [(m_start, ?e)]"]
    show ?thesis using True prod r' by (simp add: Let_def)
  qed
qed

lemma forward_loop_rows:
  assumes K: "ncols x = ncols w"
  shows "nrows result = nrows x \<Longrightarrow> ncols result = nrows w \<Longrightarrow>
     list_all (\<lambda>s. 0 \<le> s) m_sizes \<Longrightarrow> int p + sum_list m_sizes \<le> int (nrows x) \<Longrightarrow>
     forward_loop x w m_sizes (int p) result tape =
       Inr (result\<lparr>rws := take p (rws result)
                    @ map (row_mm (transpose_t w)) (take (nat (sum_list m_sizes)) (drop p (rws x)))
                    @ drop (p + nat (sum_list m_sizes)) (rws result)\<rparr>,
            tape @ ranges (int p) m_sizes)"
proof (induction m_sizes arbitrary: p result tape)
  case Nil
  then show ?case by simp
next
  case (Cons m_size rest)
  have nonneg: "0 \<le> m_size" "list_all (\<lambda>s. 0 \<le> s) rest" using Cons.prems(3) by simp_all
  then have rest_nonneg: "0 \<le> sum_list rest"
    by (simp add: list_all_iff sum_list_nonneg)
  show ?case
  proof (cases "m_size > 0")
    case False
    then have z: "m_size = 0" using nonneg by simp
    show ?thesis using Cons.IH[of result p tape] Cons.prems nonneg z by simp
  next
    case True
    define k where "k = nat m_size"
    define S where "S = nat (sum_list rest)"
    have ms: "m_size = int k" using True by (simp add: k_def)
    have sr: "sum_list rest = int S" using rest_nonneg by (simp add: S_def)
    have bound: "p + k + S \<le> nrows x" using Cons.prems(4) ms sr by simp
    then have pk: "p + k \<le> length (rws x)" by (simp add: nrows_def)
    let ?xg = "take k (drop p (rws x))"
    let ?y = "\<lparr>ncols = nrows w, rws = map (row_mm (transpose_t w)) ?xg\<rparr>"
    have xg: "slice_rows (int p) (int p + int k) x = x\<lparr>rws := ?xg\<rparr>"
      using pk by (simp add: slice_rows_def slice_list_nat)
    have prod: "matmul (slice_rows (int p) (int p + int k) x) (transpose_t w) = Inr ?y"
      using K by (simp add: matmul_slice_transpose mm_rows) (simp add: xg)
    have len_xg: "length ?xg = k" using pk by simp
    have lenR: "length (rws result) = nrows x" using Cons.prems(1) by (simp add: nrows_def)
    have si: "slice_index (int p) (nrows result) = p"
             "slice_index (int p + int k) (nrows result) = p + k"
      using bound Cons.prems(1) by (simp_all add: slice_index_def)
    let ?r' = "result\<lparr>rws := take p (rws result) @ map (row_mm (transpose_t w)) ?xg
                               @ drop (p + k) (rws result)\<rparr>"
    have "nrows ?y = slice_index (int p + int k) (nrows result) - slice_index (int p) (nrows result)"
      unfolding si using len_xg by (simp add: nrows_def)
    moreover have "ncols ?y = ncols result" using Cons.prems(2) by simp
    ultimately have sr': "set_rows (int p) (int p + int k) ?y result = Inr ?r'"
      using set_rows_ok[of ?y "int p + int k" result "int p"] unfolding si by simp
    have r'1: "nrows ?r' = nrows x" using bound lenR len_xg by (simp add: nrows_def)
    have r'2: "ncols ?r' = nrows w" using Cons.prems(2) by simp
    have b': "int (p + k) + sum_list rest \<le> int (nrows x)" using bound sr by simp
    have IH: "forward_loop x w rest (int (p + k)) ?r' (tape @ [(int p, int p + int k)]) =
       Inr (?r'\<lparr>rws := take (p + k) (rws ?r')
                    @ map (row_mm (transpose_t w)) (take S (drop (p + k) (rws x)))
                    @ drop (p + k + S) (rws ?r')\<rparr>,
            (tape @ [(int p, int p + int k)]) @ ranges (int (p + k)) rest)"
      using Cons.IH[OF r'1 r'2 nonneg(2) b', of "tape @ [(int p, int p + int k)]"]
      by (simp add: S_def)
    have lp: "length (take p (rws result)) = p" using bound lenR by simp
    have t1: "take (p + k) (rws ?r') = take p (rws result) @ map (row_mm (transpose_t w)) ?xg"
      using lp len_xg by simp
    have t2: "drop (p + k + S) (rws ?r') = drop (p + k + S) (rws result)"
      using lp len_xg by (simp add: add.commute)
    have t3: "?xg @ take S (drop (p + k) (rws x)) = take (k + S) (drop p (rws x))"
      using take_add[of k S "drop p (rws x)"] by (simp add: add.commute)
    have tot: "nat (sum_list (m_size # rest)) = k + S" using ms sr by simp
    have final: "take (p + k) (rws ?r') @ map (row_mm (transpose_t w)) (take S (drop (p + k) (rws x)))
                   @ drop (p + k + S) (rws ?r')
       = take p (rws result) @ map (row_mm (transpose_t w)) (take (k + S) (drop p (rws x)))
           @ drop (p + (k + S)) (rws result)"
      unfolding t1 t2 t3[symmetric] by (simp add: add.assoc)
    have step: "forward_loop x w (m_size # rest) (int p) result tape
         = forward_loop x w rest (int (p + k)) ?r' (tape @ [(int p, int p + int k)])"
      using True prod sr' by (simp add: Let_def ms)
    show ?thesis
      unfolding step IH tot using final True by (simp add: ms)
  qed
qed

lemma forward_recorded_valid:
  assumes "ncols x = ncols w" "valid_sizes m_sizes (nrows x)"
  shows "forward_recorded x w m_sizes = Inr (mm x (transpose_t w), ranges 0 m_sizes)"
proof -
  have nn: "list_all (\<lambda>s. 0 \<le> s) m_sizes" and tot: "sum_list m_sizes = int (nrows x)"
    using assms(2) by (simp_all add: valid_sizes_def)
  have b: "int 0 + sum_list m_sizes \<le> int (nrows x)" using tot by simp
  have "forward_loop x w m_sizes (int 0) (zeros (nrows x) (nrows w)) [] =
       Inr ((zeros (nrows x) (nrows w))\<lparr>rws := take 0 (rws (zeros (nrows x) (nrows w)))
               @ map (row_mm (transpose_t w)) (take (nat (sum_list m_sizes)) (drop 0 (rws x)))
               @ drop (0 + nat (sum_list m_sizes)) (rws (zeros (nrows x) (nrows w)))\<rparr>,
            [] @ ranges (int 0) m_sizes)"
    by (rule forward_loop_rows[OF assms(1) _ _ nn b]) simp_all
  then show ?thesis
    by (simp add: forward_recorded_def tot mm_rows) (simp add: zeros_def nrows_def)
qed

lemma forward_recorded_success:
  assumes "ncols x = ncols w"
  shows "\<exists>r. forward_recorded x w m_sizes = Inr (r, ranges 0 m_sizes)
           \<and> nrows r = nrows x \<and> ncols r = nrows w \<and> wf_tensor r"
  using forward_loop_success[OF assms, of "zeros (nrows x) (nrows w)" m_sizes 0 "[]"]
  by (simp add: forward_recorded_def)

lemma ranges_empty_iff: "ranges p m_sizes = [] \<longleftrightarrow> (\<forall>s\<in>set m_sizes. s \<le> 0)"
  by (induction m_sizes arbitrary: p) auto

lemma filter_nonzero_positive:
  "filter (\<lambda>s. 0 < s) (filter (\<lambda>s. s \<noteq> 0) m_sizes) = filter (\<lambda>s. 0 < s) (m_sizes :: int list)"
  by (induction m_sizes) auto

lemma filter_nonneg_positive:
  "filter (\<lambda>s. 0 < s) (filter (\<lambda>s. 0 \<le> s) m_sizes) = filter (\<lambda>s. 0 < s) (m_sizes :: int list)"
  by (induction m_sizes) auto

lemma forward_recorded_positive:
  "forward_recorded x w (filter (\<lambda>s. 0 < s) m_sizes) = forward_recorded x w m_sizes"
  by (simp add: forward_recorded_def forward_loop_positive)






section \<open>The backward pass\<close>

lemma dot_columns:
  "dot (map (\<lambda>r. r ! n) A) (map (\<lambda>r. r ! k) B) = colsum A B n k"
  by (simp add: dot_def colsum_def zip_map_map case_prod_unfold o_def)

lemma mm_transpose_tabulate:
  "mm (transpose_t a) b = tabulate (ncols a) (ncols b) (colsum (rws a) (rws b))"
  by (simp add: mm_def transpose_t_def tabulate_def dot_columns o_def)

lemma colsum_commute: "colsum B A k n = colsum A B n k"
proof -
  have "zip B A = map (\<lambda>(a, b). (b, a)) (zip A B)" by (rule zip_commute)
  then show ?thesis
    by (simp add: colsum_def case_prod_unfold o_def mult.commute)
qed

lemma transpose_tabulate: "transpose_t (tabulate K N f) = tabulate N K (\<lambda>n k. f k n)"
  by (simp add: transpose_t_def tabulate_def nrows_def o_def)

lemma gram_transposed_tabulate:
  "transpose_t (mm (transpose_t b) a) = tabulate (ncols a) (ncols b) (colsum (rws a) (rws b))"
  by (simp add: mm_transpose_tabulate transpose_tabulate colsum_commute)

lemma map2_map_map: "map2 h (map f xs) (map g xs) = map (\<lambda>x. h (f x) (g x)) xs"
  by (induction xs) simp_all

lemma tensor_add_tabulate:
  "tensor_add (tabulate N K f) (tabulate N K g) = tabulate N K (\<lambda>n k. f n k + g n k)"
  by (simp add: tensor_add_def tabulate_def map2_map_map)

lemma colsum_append:
  "length A1 = length B1 \<Longrightarrow> colsum (A1 @ A2) (B1 @ B2) n k = colsum A1 B1 n k + colsum A2 B2 n k"
  by (simp add: colsum_def)

lemma zeros_tabulate: "zeros N K = tabulate N K (\<lambda>n k. 0)"
  by (simp add: zeros_def tabulate_def map_replicate_const)

lemma colsum_Nil [simp]: "colsum [] B n k = 0"
  by (simp add: colsum_def)

lemma map2_add_zero_rows:
  "\<forall>r\<in>set rs. length r = k \<Longrightarrow>
   map2 (map2 (+)) (replicate (length rs) (replicate k (0::'a::comm_semiring_0))) rs = rs"
proof (induction rs)
  case Nil
  then show ?case by simp
next
  case (Cons r rs)
  have "map2 (+) (replicate (length r) (0::'a)) r = r"
    by (induction r) simp_all
  then show ?case using Cons by simp
qed

lemma backward_fold:
  assumes K: "ncols x = ncols w" and N: "ncols gy = nrows w" and Mg: "nrows gy = nrows x"
  shows "list_all (\<lambda>s. 0 \<le> s) m_sizes \<Longrightarrow> int p + sum_list m_sizes \<le> int (nrows x) \<Longrightarrow>
    foldr (backward_group x w gy) (ranges (int p) m_sizes)
        (zeros (nrows x) (ncols x), zeros (nrows w) (ncols w)) =
      (\<lparr>ncols = ncols x,
        rws = replicate p (replicate (ncols x) 0)
              @ map (row_mm w) (take (nat (sum_list m_sizes)) (drop p (rws gy)))
              @ replicate (nrows x - (p + nat (sum_list m_sizes))) (replicate (ncols x) 0)\<rparr>,
       tabulate (nrows w) (ncols w)
         (colsum (take (nat (sum_list m_sizes)) (drop p (rws gy)))
                 (take (nat (sum_list m_sizes)) (drop p (rws x)))))"
proof (induction m_sizes arbitrary: p)
  case Nil
  then have "p \<le> nrows x" by simp
  then have "replicate p (replicate (ncols x) (0::'a)) @ replicate (nrows x - p) (replicate (ncols x) 0)
      = replicate (nrows x) (replicate (ncols x) 0)"
    by (simp add: replicate_add[symmetric])
  then show ?case by (simp add: zeros_def zeros_tabulate[symmetric])
next
  case (Cons m_size rest)
  have nonneg: "0 \<le> m_size" "list_all (\<lambda>s. 0 \<le> s) rest" using Cons.prems(1) by simp_all
  then have rest_nonneg: "0 \<le> sum_list rest"
    by (simp add: list_all_iff sum_list_nonneg)
  show ?case
  proof (cases "m_size > 0")
    case False
    then have z: "m_size = 0" using nonneg by simp
    show ?thesis using Cons.IH[of p] Cons.prems nonneg z by simp
  next
    case True
    define k where "k = nat m_size"
    define S where "S = nat (sum_list rest)"
    define z where "z = replicate (ncols x) (0::'a)"
    have ms: "m_size = int k" using True by (simp add: k_def)
    have sr: "sum_list rest = int S" using rest_nonneg by (simp add: S_def)
    have bound: "p + k + S \<le> nrows x" using Cons.prems(2) ms sr by simp
    have tot: "nat (sum_list (m_size # rest)) = k + S" using ms sr by simp
    let ?A1 = "take k (drop p (rws gy))" and ?B1 = "take k (drop p (rws x))"
    let ?A2 = "take S (drop (p + k) (rws gy))" and ?B2 = "take S (drop (p + k) (rws x))"
    let ?gx = "\<lparr>ncols = ncols x,
                rws = replicate (p + k) z @ map (row_mm w) ?A2 @ replicate (nrows x - (p + k + S)) z\<rparr>"
    let ?gw = "tabulate (nrows w) (ncols w) (colsum ?A2 ?B2)"
    have b': "int (p + k) + sum_list rest \<le> int (nrows x)" using bound sr by simp
    have IH: "foldr (backward_group x w gy) (ranges (int (p + k)) rest)
                (zeros (nrows x) (ncols x), zeros (nrows w) (ncols w)) = (?gx, ?gw)"
      using Cons.IH[OF nonneg(2) b'] by (simp add: S_def z_def)
    have lenA1: "length ?A1 = k" and lenB1: "length ?B1 = k"
      using bound Mg by (simp_all add: nrows_def)
    have g: "slice_rows (int p) (int p + int k) gy = \<lparr>ncols = nrows w, rws = ?A1\<rparr>"
      using bound Mg N by (simp add: slice_rows_def slice_list_nat nrows_def)
    have xg: "slice_rows (int p) (int p + int k) x = \<lparr>ncols = ncols w, rws = ?B1\<rparr>"
      using bound K by (simp add: slice_rows_def slice_list_nat nrows_def)
    have nr: "nrows ?gx = nrows x" using bound Mg by (simp add: nrows_def)
    have si: "slice_index (int p) (nrows ?gx) = p" "slice_index (int p + int k) (nrows ?gx) = p + k"
      unfolding nr using bound by (simp_all add: slice_index_def)
    have rows_ok: "\<forall>r\<in>set (map (row_mm w) ?A1). length r = ncols x" using K by simp
    have addz: "map2 (map2 (+)) (replicate k z) (map (row_mm w) ?A1) = map (row_mm w) ?A1"
      using map2_add_zero_rows[OF rows_ok] lenA1 by (simp add: z_def)
    have gx': "add_rows (int p) (int p + int k) (mm \<lparr>ncols = nrows w, rws = ?A1\<rparr> w) ?gx
       = \<lparr>ncols = ncols x,
          rws = replicate p z @ map (row_mm w) (?A1 @ ?A2) @ replicate (nrows x - (p + k + S)) z\<rparr>"
      unfolding add_rows_def Let_def si
      by (simp add: mm_rows replicate_add addz)
    have gw': "tensor_add ?gw (transpose_t (mm (transpose_t \<lparr>ncols = ncols w, rws = ?B1\<rparr>)
                                               \<lparr>ncols = nrows w, rws = ?A1\<rparr>))
       = tabulate (nrows w) (ncols w) (colsum (?A1 @ ?A2) (?B1 @ ?B2))"
    proof -
      have "length ?A1 = length ?B1" using lenA1 lenB1 by simp
      then have ca: "colsum (?A1 @ ?A2) (?B1 @ ?B2)
                       = (\<lambda>n j. colsum ?A2 ?B2 n j + colsum ?A1 ?B1 n j)"
        by (intro ext) (simp only: colsum_append add.commute)
      show ?thesis
        by (simp add: gram_transposed_tabulate tensor_add_tabulate ca)
    qed
    have cat: "?A1 @ ?A2 = take (k + S) (drop p (rws gy))" "?B1 @ ?B2 = take (k + S) (drop p (rws x))"
      using take_add[of k S "drop p (rws gy)"] take_add[of k S "drop p (rws x)"]
      by (simp_all add: add.commute)
    have "foldr (backward_group x w gy) (ranges (int p) (m_size # rest))
              (zeros (nrows x) (ncols x), zeros (nrows w) (ncols w))
        = backward_group x w gy (int p, int p + int k) (?gx, ?gw)"
      using True IH by (simp add: ms)
    also have "\<dots> = (\<lparr>ncols = ncols x,
                        rws = replicate p z @ map (row_mm w) (?A1 @ ?A2)
                              @ replicate (nrows x - (p + k + S)) z\<rparr>,
                      tabulate (nrows w) (ncols w) (colsum (?A1 @ ?A2) (?B1 @ ?B2)))"
      unfolding backward_group_def by (simp only: prod.case Let_def g xg gx' gw')
    finally show ?thesis unfolding tot cat by (simp add: z_def add.assoc)
  qed
qed

lemma positive_size_exists:
  assumes "valid_sizes m_sizes m" "0 < m"
  shows "\<exists>s\<in>set m_sizes. 0 < s"
proof (rule ccontr)
  assume "\<not> (\<exists>s\<in>set m_sizes. 0 < s)"
  then have "\<forall>s\<in>set m_sizes. s \<le> 0" by auto
  then have "sum_list m_sizes \<le> 0" by (induction m_sizes) auto
  then show False using assms by (simp add: valid_sizes_def)
qed

lemma backward_valid:
  assumes K: "ncols x = ncols w" and N: "ncols gy = nrows w" and Mg: "nrows gy = nrows x"
    and v: "valid_sizes m_sizes (nrows x)" and pos: "0 < nrows x"
  shows "compute_reference_backward x w m_sizes gy = Inr (mm gy w, mm (transpose_t gy) x)"
proof -
  have nn: "list_all (\<lambda>s. 0 \<le> s) m_sizes" and tot: "sum_list m_sizes = int (nrows x)"
    using v by (simp_all add: valid_sizes_def)
  have b: "int 0 + sum_list m_sizes \<le> int (nrows x)" using tot by simp
  have tape: "ranges 0 m_sizes \<noteq> []"
    using positive_size_exists[OF v pos] by (fastforce simp: ranges_empty_iff)
  have lg: "length (rws gy) = nrows x" using Mg by (simp add: nrows_def)
  have "foldr (backward_group x w gy) (ranges (int 0) m_sizes)
            (zeros (nrows x) (ncols x), zeros (nrows w) (ncols w))
        = (mm gy w, mm (transpose_t gy) x)"
    unfolding backward_fold[OF K N Mg nn b]
    using K N lg by (simp add: tot mm_rows[of gy w] mm_transpose_tabulate) (simp add: nrows_def)
  then show ?thesis
    using tape Mg N by (simp add: compute_reference_backward_def forward_recorded_valid[OF K v])
qed


lemma foldr_tensor_add_tabulate:
  "foldr tensor_add (map (\<lambda>g. tabulate N K (F g)) gs) (tabulate N K h)
     = tabulate N K (\<lambda>n k. sum_list (map (\<lambda>g. F g n k) gs) + h n k)"
  by (induction gs) (simp_all add: tensor_add_tabulate add.assoc)

lemma offset_Suc: "g < length m_sizes \<Longrightarrow> offset m_sizes (Suc g) = offset m_sizes g + m_sizes ! g"
  by (simp add: offset_def take_Suc_conv_app_nth)

lemma offset_bounds:
  assumes "list_all (\<lambda>s. 0 \<le> s) m_sizes"
  shows "0 \<le> offset m_sizes g" and "offset m_sizes g \<le> sum_list m_sizes"
proof -
  have a: "\<forall>s\<in>set (take g m_sizes). 0 \<le> s" and b: "\<forall>s\<in>set (drop g m_sizes). 0 \<le> s"
    using assms by (auto simp: list_all_iff dest: in_set_takeD in_set_dropD)
  show "0 \<le> offset m_sizes g" using a by (simp add: offset_def sum_list_nonneg)
  have "sum_list m_sizes = sum_list (take g m_sizes) + sum_list (drop g m_sizes)"
    by (metis append_take_drop_id sum_list_append)
  moreover have "0 \<le> sum_list (drop g m_sizes)" using b by (simp add: sum_list_nonneg)
  ultimately show "offset m_sizes g \<le> sum_list m_sizes" by (simp add: offset_def)
qed

lemma group_colsum:
  assumes nn: "list_all (\<lambda>s. 0 \<le> s) m_sizes" and tot: "sum_list m_sizes = int m"
    and lA: "length A = m" and lB: "length B = m"
  shows "G \<le> length m_sizes \<Longrightarrow>
    sum_list (map (\<lambda>g. colsum (slice_list (offset m_sizes g) (offset m_sizes (Suc g)) A)
                               (slice_list (offset m_sizes g) (offset m_sizes (Suc g)) B) n k) [0..<G])
      = colsum (take (nat (offset m_sizes G)) A) (take (nat (offset m_sizes G)) B) n k"
proof (induction G)
  case 0
  then show ?case by (simp add: offset_def)
next
  case (Suc G)
  then have G: "G < length m_sizes" by simp
  define a where "a = nat (offset m_sizes G)"
  define c where "c = nat (m_sizes ! G)"
  have oa: "offset m_sizes G = int a" using offset_bounds(1)[OF nn, of G] by (simp add: a_def)
  have "0 \<le> m_sizes ! G" using nn G by (simp add: list_all_length)
  then have sc: "m_sizes ! G = int c" by (simp add: c_def)
  have os: "offset m_sizes (Suc G) = int a + int c" using offset_Suc[OF G] oa sc by simp
  have "offset m_sizes (Suc G) \<le> int m" using offset_bounds(2)[OF nn, of "Suc G"] tot by simp
  then have bound: "a + c \<le> m" using os by simp
  have sA: "slice_list (int a) (int a + int c) A = take c (drop a A)"
    and sB: "slice_list (int a) (int a + int c) B = take c (drop a B)"
    using bound lA lB by (simp_all add: slice_list_nat)
  have len: "length (take a A) = length (take a B)" using bound lA lB by simp
  have tA: "take a A @ take c (drop a A) = take (a + c) A" by (simp add: take_add)
  have tB: "take a B @ take c (drop a B) = take (a + c) B" by (simp add: take_add)
  have n: "nat (int a + int c) = a + c" by simp
  have "colsum (take a A) (take a B) n k + colsum (take c (drop a A)) (take c (drop a B)) n k
        = colsum (take (a + c) A) (take (a + c) B) n k"
    using colsum_append[OF len, of "take c (drop a A)" "take c (drop a B)" n k]
    unfolding tA tB by simp
  then show ?case using Suc.IH G unfolding os oa sA sB n by (simp add: oa os sA sB)
qed

lemma group_sum:
  assumes v: "valid_sizes m_sizes (nrows x)" and Mg: "nrows gy = nrows x"
  shows "tensor_sum (ncols gy) (ncols x)
           (map (\<lambda>g. mm (transpose_t (slice_rows (offset m_sizes g) (offset m_sizes (Suc g)) gy))
                        (slice_rows (offset m_sizes g) (offset m_sizes (Suc g)) x))
                [0..<length m_sizes])
         = mm (transpose_t gy) x"
proof -
  have nn: "list_all (\<lambda>s. 0 \<le> s) m_sizes" and tot: "sum_list m_sizes = int (nrows x)"
    using v by (simp_all add: valid_sizes_def)
  have lA: "length (rws gy) = nrows x" and lB: "length (rws x) = nrows x"
    using Mg by (simp_all add: nrows_def)
  have full: "offset m_sizes (length m_sizes) = int (nrows x)" using tot by (simp add: offset_def)
  have each: "\<And>g. mm (transpose_t (slice_rows (offset m_sizes g) (offset m_sizes (Suc g)) gy))
                        (slice_rows (offset m_sizes g) (offset m_sizes (Suc g)) x)
       = tabulate (ncols gy) (ncols x)
           (colsum (slice_list (offset m_sizes g) (offset m_sizes (Suc g)) (rws gy))
                   (slice_list (offset m_sizes g) (offset m_sizes (Suc g)) (rws x)))"
    by (simp add: mm_transpose_tabulate) (simp add: slice_rows_def)
  show ?thesis
    unfolding tensor_sum_def each zeros_tabulate foldr_tensor_add_tabulate
    using group_colsum[OF nn tot lA lB, of "length m_sizes"] lA lB
    by (simp add: full mm_transpose_tabulate)
qed

section \<open>The comparison\<close>

lemma fle_total: "\<not> is_nan a \<Longrightarrow> \<not> is_nan b \<Longrightarrow> fle a b \<or> fle b a"
  by (cases a; cases b) (auto simp: is_nan_def)

lemma fle_trans: "fle a b \<Longrightarrow> fle b c \<Longrightarrow> fle a c"
  by (cases a; cases b; cases c) auto

lemma fle_refl: "\<not> is_nan a \<Longrightarrow> fle a a"
  by (cases a) (auto simp: is_nan_def)

lemma isclose_nan: "is_nan a \<Longrightarrow> \<not> isclose rnd rtol atol a b"
  by (cases b) (auto simp: is_nan_def isclose_def feq_def Let_def)

lemma isclose_exact:
  "isclose no_rounding (1/2) (1/2) (Fin a) (Fin b) \<longleftrightarrow> \<bar>a - b\<bar> \<le> 1/2 + \<bar>1/2 * b\<bar>"
  by (auto simp: isclose_def feq_def Let_def no_rounding_def)

lemma scan_position:
  "length pre = i \<Longrightarrow> bi < i \<Longrightarrow>
   argmax_scan vs i bi ((pre @ vs) ! bi) < length (pre @ vs)
   \<and> max_scan vs ((pre @ vs) ! bi) = (pre @ vs) ! argmax_scan vs i bi ((pre @ vs) ! bi)"
proof (induction vs arbitrary: pre i bi)
  case Nil
  then show ?case by simp
next
  case (Cons v vs)
  have l: "length (pre @ [v]) = Suc i" using Cons.prems by simp
  have e: "(pre @ [v]) @ vs = pre @ v # vs" by simp
  have vi: "(pre @ v # vs) ! i = v" using Cons.prems by (simp add: nth_append)
  show ?case
  proof (cases "better v ((pre @ v # vs) ! bi)")
    case True
    have "i < Suc i" by simp
    from Cons.IH[OF l this] True show ?thesis unfolding e by (simp add: vi)
  next
    case False
    have "bi < Suc i" using Cons.prems by simp
    from Cons.IH[OF l this] False show ?thesis unfolding e by simp
  qed
qed

lemma scan_maximal:
  "length pre = i \<Longrightarrow> bi < i \<Longrightarrow> \<forall>u\<in>set (pre @ vs). \<not> is_nan u \<Longrightarrow>
   \<forall>j<i. fle ((pre @ vs) ! j) ((pre @ vs) ! bi) \<Longrightarrow>
   \<forall>j<length (pre @ vs). fle ((pre @ vs) ! j) ((pre @ vs) ! argmax_scan vs i bi ((pre @ vs) ! bi))"
proof (induction vs arbitrary: pre i bi)
  case Nil
  then show ?case by simp
next
  case (Cons v vs)
  let ?L = "pre @ v # vs"
  have l: "length (pre @ [v]) = Suc i" using Cons.prems by simp
  have e: "(pre @ [v]) @ vs = ?L" by simp
  have vi: "?L ! i = v" using Cons.prems by (simp add: nth_append)
  have nn: "\<forall>u\<in>set ((pre @ [v]) @ vs). \<not> is_nan u" using Cons.prems(3) by simp
  have nv: "\<not> is_nan v" and nb: "\<not> is_nan (?L ! bi)"
    using Cons.prems by (simp_all add: nth_append)
  show ?case
  proof (cases "better v (?L ! bi)")
    case True
    then have lt: "fle (?L ! bi) v" using nv by (simp add: better_def flt_def)
    have "\<forall>j<Suc i. fle (((pre @ [v]) @ vs) ! j) (((pre @ [v]) @ vs) ! i)"
    proof (intro allI impI)
      fix j assume "j < Suc i"
      then consider "j < i" | "j = i" by linarith
      then show "fle (((pre @ [v]) @ vs) ! j) (((pre @ [v]) @ vs) ! i)"
      proof cases
        case 1
        then have "fle (?L ! j) (?L ! bi)" using Cons.prems(4) by simp
        then show ?thesis unfolding e vi using lt by (rule fle_trans)
      next
        case 2
        then show ?thesis unfolding e using vi nv by (simp add: fle_refl)
      qed
    qed
    from Cons.IH[OF l _ nn this] True show ?thesis unfolding e by (simp add: vi)
  next
    case False
    then have "\<not> flt (?L ! bi) v" using nb nv by (simp add: better_def)
    then have ge: "fle v (?L ! bi)" using fle_total[OF nv nb] by (auto simp: flt_def)
    have "\<forall>j<Suc i. fle (((pre @ [v]) @ vs) ! j) (((pre @ [v]) @ vs) ! bi)"
    proof (intro allI impI)
      fix j assume "j < Suc i"
      then consider "j < i" | "j = i" by linarith
      then show "fle (((pre @ [v]) @ vs) ! j) (((pre @ [v]) @ vs) ! bi)"
      proof cases
        case 1
        then show ?thesis unfolding e using Cons.prems(4) by simp
      next
        case 2
        then show ?thesis unfolding e using vi ge by simp
      qed
    qed
    moreover have "bi < Suc i" using Cons.prems by simp
    ultimately show ?thesis using Cons.IH[OF l _ nn] False unfolding e by simp
  qed
qed

lemma argmax_nonempty:
  assumes "vs \<noteq> []"
  shows "\<exists>p. argmax vs = Inr p \<and> p < length vs \<and> fmax vs = Inr (vs ! p)
           \<and> ((\<forall>u\<in>set vs. \<not> is_nan u) \<longrightarrow> (\<forall>j<length vs. fle (vs ! j) (vs ! p)))"
proof -
  obtain v rest where vs: "vs = v # rest" using assms by (cases vs) auto
  have l: "length [v] = 1" and b: "(0::nat) < 1" by simp_all
  have p: "argmax_scan rest 1 0 (([v] @ rest) ! 0) < length ([v] @ rest)
     \<and> max_scan rest (([v] @ rest) ! 0) = ([v] @ rest) ! argmax_scan rest 1 0 (([v] @ rest) ! 0)"
    by (rule scan_position[OF l b])
  have m: "(\<forall>u\<in>set vs. \<not> is_nan u) \<longrightarrow>
     (\<forall>j<length ([v] @ rest). fle (([v] @ rest) ! j) (([v] @ rest) ! argmax_scan rest 1 0 (([v] @ rest) ! 0)))"
  proof
    assume nn: "\<forall>u\<in>set vs. \<not> is_nan u"
    then have nn': "\<forall>u\<in>set ([v] @ rest). \<not> is_nan u" using vs by simp
    have "\<forall>j<1. fle (([v] @ rest) ! j) (([v] @ rest) ! 0)" using nn vs by (simp add: fle_refl)
    from scan_maximal[OF l b nn' this]
    show "\<forall>j<length ([v] @ rest). fle (([v] @ rest) ! j) (([v] @ rest) ! argmax_scan rest 1 0 (([v] @ rest) ! 0))" .
  qed
  show ?thesis using p m by (simp add: vs argmax_def fmax_def)
qed


lemma length_concat_uniform:
  "\<forall>r\<in>set rs. length r = c \<Longrightarrow> length (concat rs) = length rs * c"
  by (induction rs) simp_all

lemma concat_nth_uniform:
  "\<forall>r\<in>set rs. length r = c \<Longrightarrow> i < length rs \<Longrightarrow> j < c \<Longrightarrow> concat rs ! (i * c + j) = rs ! i ! j"
proof (induction rs arbitrary: i)
  case Nil
  then show ?case by simp
next
  case (Cons r rs)
  show ?case
  proof (cases i)
    case 0
    then show ?thesis using Cons.prems by (simp add: nth_append)
  next
    case (Suc i')
    then have "concat rs ! (i' * c + j) = rs ! i' ! j" using Cons by simp
    moreover have "i * c + j = length r + (i' * c + j)" using Suc Cons.prems by simp
    ultimately show ?thesis using Suc by (simp add: nth_append del: mult_Suc)
  qed
qed

lemma length_flatten: "wf_tensor t \<Longrightarrow> length (flatten t) = numel t"
  by (simp add: flatten_def numel_def nrows_def wf_tensor_def list_all_iff length_concat_uniform)

lemma flatten_nth:
  assumes "wf_tensor t" "p < numel t"
  shows "flatten t ! p = entry t (p div ncols t) (p mod ncols t)"
    and "p div ncols t < nrows t" and "p mod ncols t < ncols t"
proof -
  have c: "0 < ncols t" using assms(2) by (cases "ncols t") (simp_all add: numel_def)
  show d: "p div ncols t < nrows t" using assms(2) c
    by (simp add: numel_def less_mult_imp_div_less)
  show m: "p mod ncols t < ncols t" using c by simp
  have "concat (rws t) ! (p div ncols t * ncols t + p mod ncols t)
          = rws t ! (p div ncols t) ! (p mod ncols t)"
    using assms(1) d m
    by (intro concat_nth_uniform) (simp_all add: wf_tensor_def list_all_iff nrows_def)
  then show "flatten t ! p = entry t (p div ncols t) (p mod ncols t)"
    by (simp add: flatten_def entry_def)
qed

lemma flatten_index:
  assumes "wf_tensor t" "i < nrows t" "j < ncols t"
  shows "i * ncols t + j < numel t" and "flatten t ! (i * ncols t + j) = entry t i j"
proof -
  have "i * ncols t + j < Suc i * ncols t" using assms(3) by simp
  also have "\<dots> \<le> nrows t * ncols t" using assms(2) by (intro mult_le_mono1) simp
  finally show "i * ncols t + j < numel t" by (simp add: numel_def)
  show "flatten t ! (i * ncols t + j) = entry t i j"
    using assms by (simp add: flatten_def entry_def concat_nth_uniform wf_tensor_def list_all_iff nrows_def)
qed

lemma allclose_entries:
  assumes "wf_tensor a" "wf_tensor b" "nrows a = nrows b" "ncols a = ncols b"
  shows "allclose rnd rtol atol a b \<longleftrightarrow>
         (\<forall>i<nrows a. \<forall>j<ncols a. isclose rnd rtol atol (entry a i j) (entry b i j))"
proof -
  have la: "\<And>i. i < nrows a \<Longrightarrow> length (rws a ! i) = ncols a"
    using assms(1) by (simp add: wf_tensor_def list_all_length nrows_def)
  have lb: "\<And>i. i < nrows a \<Longrightarrow> length (rws b ! i) = ncols a"
    using assms(2,3,4) by (simp add: wf_tensor_def list_all_length nrows_def)
  have "allclose rnd rtol atol a b \<longleftrightarrow>
        (\<forall>i<nrows a. list_all (\<lambda>(u, v). isclose rnd rtol atol u v) (zip (rws a ! i) (rws b ! i)))"
    using assms(3) by (simp add: allclose_def list_all_length nrows_def)
  also have "\<dots> \<longleftrightarrow> (\<forall>i<nrows a. \<forall>j<ncols a. isclose rnd rtol atol (entry a i j) (entry b i j))"
    using la lb by (simp add: list_all_length entry_def)
  finally show ?thesis .
qed


lemma flat_diff_nth:
  assumes "wf_tensor a" "wf_tensor b" "nrows a = nrows b" "ncols a = ncols b"
  shows "length (flat_diff rnd a b) = numel a"
    and "p < numel a \<Longrightarrow> flat_diff rnd a b ! p = diff_at rnd a b (p div ncols a) (p mod ncols a)"
    and "i < nrows a \<Longrightarrow> j < ncols a \<Longrightarrow> flat_diff rnd a b ! (i * ncols a + j) = diff_at rnd a b i j"
proof -
  have n: "numel b = numel a" using assms by (simp add: numel_def)
  show "length (flat_diff rnd a b) = numel a"
    using assms n by (simp add: flat_diff_def length_flatten)
  show "p < numel a \<Longrightarrow> flat_diff rnd a b ! p = diff_at rnd a b (p div ncols a) (p mod ncols a)"
    using assms n flatten_nth(1)[of a p] flatten_nth(1)[of b p]
    by (simp add: flat_diff_def length_flatten diff_at_def)
  show "i < nrows a \<Longrightarrow> j < ncols a \<Longrightarrow> flat_diff rnd a b ! (i * ncols a + j) = diff_at rnd a b i j"
    using assms n flatten_index[of a i j] flatten_index[of b i j]
    by (simp add: flat_diff_def length_flatten diff_at_def)
qed

section \<open>The sweep\<close>

lemma sweep_loop_map:
  "sweep_loop body i cs results
     = results @ map (\<lambda>j. config_entry (i + j) (body (i + j) (cs ! j))) [0..<length cs]"
proof (induction cs arbitrary: i results)
  case Nil
  then show ?case by simp
next
  case (Cons c cs)
  have "map (\<lambda>j. config_entry (i + j) (body (i + j) ((c # cs) ! j))) [0..<length (c # cs)]
      = config_entry i (body i c) # map (\<lambda>j. config_entry (Suc i + j) (body (Suc i + j) (cs ! j))) [0..<length cs]"
  proof -
    have "[0..<length (c # cs)] = 0 # map Suc [0..<length cs]"
      by (simp add: upt_conv_Cons map_Suc_upt del: upt_Suc)
    then show ?thesis by (simp add: o_def del: upt_Suc)
  qed
  then show ?case using Cons.IH
    by (auto simp: config_entry_def Let_def split: sum.splits prod.splits)
qed

lemma sweep_results_nth:
  "sweep_results body = map (\<lambda>j. config_entry j (body j (configs ! j))) [0..<length configs]"
  by (simp add: sweep_results_def sweep_loop_map)

section \<open>Evaluated examples\<close>

lemma ex_shapes:
  "ncols ex_x = ncols ex_w" "valid_sizes [1, 0, 2] (nrows ex_x)" "nrows ex_x = 3" "nrows ex_w = 3"
  by (simp_all add: ex_x_def ex_w_def valid_sizes_def nrows_def)

lemma ex_forward_102: "compute_reference_forward ex_x ex_w [1, 0, 2] = Inr ex_y"
  by code_simp

lemma ex_forward_12: "compute_reference_forward ex_x ex_w [1, 2] = Inr ex_y"
  by code_simp

lemma ex_matmul: "matmul ex_x (transpose_t ex_w) = Inr ex_y"
  by code_simp

lemma ex_backward_102: "compute_reference_backward ex_x ex_w [1, 0, 2] ex_gy = Inr (ex_gx, ex_gw)"
  by code_simp

lemma ex_grad_shapes: "nrows ex_gy = nrows ex_x" "ncols ex_gy = nrows ex_w" "0 < nrows ex_x"
  by (simp_all add: ex_x_def ex_w_def ex_gy_def nrows_def)

lemma ex_empty_shapes:
  "ncols ex_x0 = ncols ex_w" "nrows ex_gy0 = nrows ex_x0" "ncols ex_gy0 = nrows ex_w"
  "valid_sizes [0] (nrows ex_x0)" "valid_sizes [0, 0] (nrows ex_x0)"
  by (simp_all add: ex_x0_def ex_w_def ex_gy0_def nrows_def valid_sizes_def)

lemma slice_forward_group:
  assumes "ncols x = ncols w"
  shows "matmul (slice_rows s e x) (transpose_t w) = Inr (slice_rows s e (mm x (transpose_t w)))"
  using assms by (simp add: matmul_slice_transpose slice_rows_mm)

section \<open>The claims\<close>

text \<open>
  Claim C1. For an input \<open>x\<close> of shape \<open>(M, K)\<close>, a weight \<open>w\<close> of shape \<open>(N, K)\<close> and
  non-negative group sizes that sum to \<open>M\<close>, \<open>compute_reference_forward\<close> returns an
  output \<open>y\<close> of shape \<open>(M, N)\<close>, and for every group \<open>g\<close>, whose rows run from the
  prefix sum \<open>offset g\<close> to \<open>offset (g + 1)\<close>, the rows \<open>y[s:e]\<close> are the product
  \<open>x[s:e] @ w.T\<close>.
\<close>

theorem forward_group_slices:
  assumes "ncols x = ncols w" and "valid_sizes m_sizes (nrows x)"
  shows "\<exists>y. compute_reference_forward x w m_sizes = Inr y
           \<and> nrows y = nrows x \<and> ncols y = nrows w \<and> wf_tensor y
           \<and> (\<forall>g<length m_sizes.
                 matmul (slice_rows (offset m_sizes g) (offset m_sizes (Suc g)) x) (transpose_t w)
                   = Inr (slice_rows (offset m_sizes g) (offset m_sizes (Suc g)) y))"
  using assms
  by (simp add: compute_reference_forward_def forward_recorded_valid slice_forward_group)

theorem forward_group_slices_witness:
  "ncols ex_x = ncols ex_w \<and> valid_sizes [1, 0, 2] (nrows ex_x)
   \<and> compute_reference_forward ex_x ex_w [1, 0, 2] = Inr ex_y
   \<and> nrows ex_y = nrows ex_x \<and> ncols ex_y = nrows ex_w
   \<and> matmul (slice_rows 1 3 ex_x) (transpose_t ex_w) = Inr (slice_rows 1 3 ex_y)"
proof -
  have o: "offset [1, 0, 2] 2 = 1" "offset [1, 0, 2] (Suc 2) = 3"
    by (simp_all add: offset_def numeral_2_eq_2 numeral_3_eq_3)
  from forward_group_slices[OF ex_shapes(1,2)] obtain y where
    y: "compute_reference_forward ex_x ex_w [1, 0, 2] = Inr y"
       "nrows y = nrows ex_x" "ncols y = nrows ex_w"
    and g: "\<forall>g<length [1, 0, 2 :: int].
              matmul (slice_rows (offset [1, 0, 2] g) (offset [1, 0, 2] (Suc g)) ex_x) (transpose_t ex_w)
                = Inr (slice_rows (offset [1, 0, 2] g) (offset [1, 0, 2] (Suc g)) y)"
    by blast
  have yy: "y = ex_y" using y(1) ex_forward_102 by simp
  have "(2::nat) < length [1, 0, 2 :: int]" by simp
  with g have "matmul (slice_rows (offset [1, 0, 2] 2) (offset [1, 0, 2] (Suc 2)) ex_x) (transpose_t ex_w)
                 = Inr (slice_rows (offset [1, 0, 2] 2) (offset [1, 0, 2] (Suc 2)) y)"
    by blast
  then have "matmul (slice_rows 1 3 ex_x) (transpose_t ex_w) = Inr (slice_rows 1 3 ex_y)"
    unfolding o yy .
  with y ex_shapes yy show ?thesis by simp
qed

text \<open>
  Claim C2, as amended. For \<open>x\<close> of shape \<open>(M, K)\<close> with at least one row, \<open>w\<close> of
  shape \<open>(N, K)\<close>, \<open>grad_y\<close> of shape \<open>(M, N)\<close> and non-negative group sizes that sum
  to \<open>M\<close>, \<open>compute_reference_backward\<close> returns \<open>grad_x\<close> of shape \<open>(M, K)\<close> and
  \<open>grad_w\<close> of shape \<open>(N, K)\<close> such that for every group, with rows from \<open>s\<close> to \<open>e\<close>,
  \<open>grad_x[s:e] = grad_y[s:e] @ w\<close>, and \<open>grad_w\<close> is the sum over all groups of
  \<open>grad_y[s:e].T @ x[s:e]\<close>.
\<close>

theorem backward_adjoint:
  assumes "ncols x = ncols w" and "nrows grad_y = nrows x" and "ncols grad_y = nrows w"
    and "valid_sizes m_sizes (nrows x)" and "0 < nrows x"
  shows "\<exists>grad_x grad_w.
      compute_reference_backward x w m_sizes grad_y = Inr (grad_x, grad_w)
    \<and> nrows grad_x = nrows x \<and> ncols grad_x = ncols x \<and> wf_tensor grad_x
    \<and> nrows grad_w = nrows w \<and> ncols grad_w = ncols w \<and> wf_tensor grad_w
    \<and> (\<forall>g<length m_sizes.
          matmul (slice_rows (offset m_sizes g) (offset m_sizes (Suc g)) grad_y) w
            = Inr (slice_rows (offset m_sizes g) (offset m_sizes (Suc g)) grad_x))
    \<and> grad_w = tensor_sum (nrows w) (ncols w)
        (map (\<lambda>g. mm (transpose_t (slice_rows (offset m_sizes g) (offset m_sizes (Suc g)) grad_y))
                      (slice_rows (offset m_sizes g) (offset m_sizes (Suc g)) x))
             [0..<length m_sizes])"
proof -
  have b: "compute_reference_backward x w m_sizes grad_y
             = Inr (mm grad_y w, mm (transpose_t grad_y) x)"
    by (rule backward_valid[OF assms(1,3,2,4,5)])
  have s: "tensor_sum (nrows w) (ncols w)
        (map (\<lambda>g. mm (transpose_t (slice_rows (offset m_sizes g) (offset m_sizes (Suc g)) grad_y))
                      (slice_rows (offset m_sizes g) (offset m_sizes (Suc g)) x))
             [0..<length m_sizes]) = mm (transpose_t grad_y) x"
    using group_sum[OF assms(4,2)] assms(1,3) by simp
  have g: "\<forall>g<length m_sizes.
          matmul (slice_rows (offset m_sizes g) (offset m_sizes (Suc g)) grad_y) w
            = Inr (slice_rows (offset m_sizes g) (offset m_sizes (Suc g)) (mm grad_y w))"
    using assms(3) by (simp add: matmul_def slice_rows_mm)
  show ?thesis unfolding b s using g assms(1,2,3) by simp
qed

text \<open>
  The claim as stated, for every \<open>M\<close>, fails at \<open>M = 0\<close>: no group is executed, the
  output is the untouched tensor of zeros, and \<^verbatim>\<open>backward\<close> raises on it.
\<close>

theorem backward_raises_without_rows:
  "ncols ex_x0 = ncols ex_w \<and> nrows ex_gy0 = nrows ex_x0 \<and> ncols ex_gy0 = nrows ex_w
   \<and> valid_sizes [0] (nrows ex_x0)
   \<and> compute_reference_backward ex_x0 ex_w [0] ex_gy0 = Inl NoGradError"
proof -
  have "compute_reference_backward ex_x0 ex_w [0] ex_gy0 = Inl NoGradError" by code_simp
  then show ?thesis using ex_empty_shapes by simp
qed

theorem backward_adjoint_witness:
  "ncols ex_x = ncols ex_w \<and> nrows ex_gy = nrows ex_x \<and> ncols ex_gy = nrows ex_w
   \<and> valid_sizes [1, 0, 2] (nrows ex_x) \<and> 0 < nrows ex_x
   \<and> compute_reference_backward ex_x ex_w [1, 0, 2] ex_gy = Inr (ex_gx, ex_gw)
   \<and> matmul (slice_rows 1 3 ex_gy) ex_w = Inr (slice_rows 1 3 ex_gx)
   \<and> ex_gw = tensor_sum (nrows ex_w) (ncols ex_w)
        (map (\<lambda>g. mm (transpose_t (slice_rows (offset [1, 0, 2] g) (offset [1, 0, 2] (Suc g)) ex_gy))
                      (slice_rows (offset [1, 0, 2] g) (offset [1, 0, 2] (Suc g)) ex_x))
             [0..<length [1, 0, 2 :: int]])"
proof -
  have o: "offset [1, 0, 2] 2 = 1" "offset [1, 0, 2] (Suc 2) = 3"
    by (simp_all add: offset_def numeral_2_eq_2 numeral_3_eq_3)
  from backward_adjoint[OF ex_shapes(1) ex_grad_shapes(1,2) ex_shapes(2) ex_grad_shapes(3)]
  obtain grad_x grad_w where
    r: "compute_reference_backward ex_x ex_w [1, 0, 2] ex_gy = Inr (grad_x, grad_w)"
    and g: "\<forall>g<length [1, 0, 2 :: int].
          matmul (slice_rows (offset [1, 0, 2] g) (offset [1, 0, 2] (Suc g)) ex_gy) ex_w
            = Inr (slice_rows (offset [1, 0, 2] g) (offset [1, 0, 2] (Suc g)) grad_x)"
    and w: "grad_w = tensor_sum (nrows ex_w) (ncols ex_w)
        (map (\<lambda>g. mm (transpose_t (slice_rows (offset [1, 0, 2] g) (offset [1, 0, 2] (Suc g)) ex_gy))
                      (slice_rows (offset [1, 0, 2] g) (offset [1, 0, 2] (Suc g)) ex_x))
             [0..<length [1, 0, 2 :: int]])"
    by blast
  have eq: "grad_x = ex_gx" "grad_w = ex_gw" using r ex_backward_102 by simp_all
  have "(2::nat) < length [1, 0, 2 :: int]" by simp
  with g have "matmul (slice_rows (offset [1, 0, 2] 2) (offset [1, 0, 2] (Suc 2)) ex_gy) ex_w
            = Inr (slice_rows (offset [1, 0, 2] 2) (offset [1, 0, 2] (Suc 2)) grad_x)"
    by blast
  then have "matmul (slice_rows 1 3 ex_gy) ex_w = Inr (slice_rows 1 3 ex_gx)"
    unfolding o eq .
  with w[unfolded eq] ex_backward_102 ex_shapes(1,2) ex_grad_shapes show ?thesis by blast
qed

text \<open>
  Claim C3. Removing the zero entries from the group sizes changes nothing: the
  forward computation returns the same output, and it executes the same matmuls and
  slice assignments, so a group of size zero contributes no rows and no computation.
  This holds for every group-size list, whatever its sum.
\<close>

theorem zero_groups_removed:
  "forward_recorded x w (filter (\<lambda>s. s \<noteq> 0) m_sizes) = forward_recorded x w m_sizes
   \<and> compute_reference_forward x w (filter (\<lambda>s. s \<noteq> 0) m_sizes)
       = compute_reference_forward x w m_sizes"
proof -
  have "forward_recorded x w (filter (\<lambda>s. s \<noteq> 0) m_sizes) = forward_recorded x w m_sizes"
    using forward_recorded_positive[of x w "filter (\<lambda>s. s \<noteq> 0) m_sizes"]
          forward_recorded_positive[of x w m_sizes]
    by (simp only: filter_nonzero_positive)
  then show ?thesis by (simp add: compute_reference_forward_def)
qed

theorem zero_groups_removed_witness:
  "compute_reference_forward ex_x ex_w [1, 2] = compute_reference_forward ex_x ex_w [1, 0, 2]
   \<and> compute_reference_forward ex_x ex_w [1, 0, 2] = Inr ex_y"
  using zero_groups_removed[of ex_x ex_w "[1, 0, 2]"] ex_forward_102 by simp

text \<open>
  Claim C4. With a single group that holds all \<open>M\<close> rows, \<open>m_sizes = [M]\<close>, the forward
  computation on \<open>x\<close> of shape \<open>(M, K)\<close> and \<open>w\<close> of shape \<open>(N, K)\<close> returns the plain
  product \<open>x @ w.T\<close>.
\<close>

theorem single_group_is_matmul:
  assumes "ncols x = ncols w"
  shows "compute_reference_forward x w [int (nrows x)] = matmul x (transpose_t w)"
proof -
  have "valid_sizes [int (nrows x)] (nrows x)" by (simp add: valid_sizes_def)
  then have "compute_reference_forward x w [int (nrows x)] = Inr (mm x (transpose_t w))"
    using assms by (simp add: compute_reference_forward_def forward_recorded_valid)
  then show ?thesis using assms by (simp add: matmul_def)
qed

theorem single_group_is_matmul_witness:
  "ncols ex_x = ncols ex_w
   \<and> compute_reference_forward ex_x ex_w [3] = matmul ex_x (transpose_t ex_w)
   \<and> matmul ex_x (transpose_t ex_w) = Inr ex_y"
  using single_group_is_matmul[OF ex_shapes(1)] ex_shapes ex_matmul by simp

text \<open>
  Claim C5. For valid inputs (at least one group, non-negative group sizes that sum to
  the number of rows of \<open>x\<close>, and \<open>x\<close> and \<open>w\<close> with the same \<open>K\<close>) the forward
  computation returns an output of shape \<open>(sum m_sizes, N)\<close>, \<open>N\<close> the number of rows
  of \<open>w\<close>.
\<close>

theorem forward_shape:
  assumes "ncols x = ncols w" and "valid_sizes m_sizes (nrows x)" and "1 \<le> length m_sizes"
  shows "\<exists>y. compute_reference_forward x w m_sizes = Inr y
           \<and> int (nrows y) = sum_list m_sizes \<and> ncols y = nrows w \<and> wf_tensor y"
  using assms forward_recorded_success[OF assms(1), of m_sizes]
  by (auto simp: compute_reference_forward_def valid_sizes_def)

theorem forward_shape_witness:
  "ncols ex_x = ncols ex_w \<and> valid_sizes [1, 0, 2] (nrows ex_x) \<and> 1 \<le> length [1, 0, 2 :: int]
   \<and> (\<exists>y. compute_reference_forward ex_x ex_w [1, 0, 2] = Inr y
           \<and> int (nrows y) = sum_list [1, 0, 2] \<and> ncols y = nrows ex_w \<and> wf_tensor y)"
proof -
  have "1 \<le> length [1, 0, 2 :: int]" by simp
  from forward_shape[OF ex_shapes(1,2) this] ex_shapes show ?thesis by simp
qed




text \<open>
  Claim C7, as amended. A negative group size raises no error: the loop skips it as it
  skips a zero, so the forward and the backward computation do what they do on the
  group sizes without their negative entries.
\<close>

theorem negative_sizes_skipped:
  "forward_recorded x w (filter (\<lambda>s. 0 \<le> s) m_sizes) = forward_recorded x w m_sizes
   \<and> compute_reference_forward x w (filter (\<lambda>s. 0 \<le> s) m_sizes)
       = compute_reference_forward x w m_sizes
   \<and> compute_reference_backward x w (filter (\<lambda>s. 0 \<le> s) m_sizes) grad_output
       = compute_reference_backward x w m_sizes grad_output"
proof -
  have "forward_recorded x w (filter (\<lambda>s. 0 \<le> s) m_sizes) = forward_recorded x w m_sizes"
    using forward_recorded_positive[of x w "filter (\<lambda>s. 0 \<le> s) m_sizes"]
          forward_recorded_positive[of x w m_sizes]
    by (simp only: filter_nonneg_positive)
  then show ?thesis by (simp add: compute_reference_forward_def compute_reference_backward_def)
qed

text \<open>The claim as stated fails: the group sizes \<open>[-1, 3]\<close> give a result, not an error.\<close>

theorem negative_size_accepted:
  "compute_reference_forward ex_x ex_w [-1, 3] = Inr ex_y"
  by code_simp

theorem negative_sizes_skipped_witness:
  "compute_reference_forward ex_x ex_w [1, 2] = compute_reference_forward ex_x ex_w [1, -4, 2]
   \<and> compute_reference_forward ex_x ex_w [1, 2] = Inr ex_y"
  using negative_sizes_skipped[of ex_x ex_w "[1, -4, 2]"] ex_forward_12 by simp

text \<open>
  Claim C8, as amended. For two tensors of the same shape with at least one element,
  \<open>analyze_tensor_differences\<close> returns True exactly when every pair of elements is
  close with relative and absolute tolerance 0.5 as \<^verbatim>\<open>torch.allclose\<close> decides it in
  the dtype of the tensors, whatever the rounding of that dtype is. It always reports
  first the difference at one position together with that position, and the two
  values there; when no difference is NaN, no difference is greater than the reported
  one. Only when the comparison fails does it go on to report the number of exact
  zeros on each side, and the number of NaN in \<open>actual\<close> only when the comparison fails
  and that number is positive; a successful comparison reports success and nothing
  else.
\<close>

theorem analyze_report:
  assumes "wf_tensor actual" "wf_tensor expected"
    and "nrows actual = nrows expected" "ncols actual = ncols expected"
    and "0 < nrows actual" "0 < ncols actual"
  shows "\<exists>is_close log i j.
      analyze_tensor_differences rnd actual expected name = Inr (is_close, log)
    \<and> (is_close \<longleftrightarrow> (\<forall>i'<nrows actual. \<forall>j'<ncols actual.
                        isclose rnd (1/2) (1/2) (entry actual i' j') (entry expected i' j')))
    \<and> i < nrows actual \<and> j < ncols actual
    \<and> take 2 log = [LargestDifference name (diff_at rnd actual expected i j) (i, j),
                    Values (entry actual i j) (entry expected i j)]
    \<and> ((\<forall>i'<nrows actual. \<forall>j'<ncols actual. \<not> is_nan (diff_at rnd actual expected i' j'))
         \<longrightarrow> (\<forall>i'<nrows actual. \<forall>j'<ncols actual.
                fle (diff_at rnd actual expected i' j') (diff_at rnd actual expected i j)))
    \<and> drop 2 log =
        (if is_close then [Success name]
         else [Failure name,
               ZerosActual name (count_where (\<lambda>v. feq v (Fin 0)) actual) (numel actual),
               ZerosExpected name (count_where (\<lambda>v. feq v (Fin 0)) expected) (numel expected)]
              @ (if 0 < count_where is_nan actual
                 then [NaNDetected name (count_where is_nan actual)] else []))"
proof -
  let ?d = "flat_diff rnd actual expected"
  have pos: "0 < numel actual" using assms(5,6) by (simp add: numel_def)
  have len: "length ?d = numel actual" by (rule flat_diff_nth(1)[OF assms(1-4)])
  then have "?d \<noteq> []" using pos by auto
  from argmax_nonempty[OF this] obtain p where
    p: "argmax ?d = Inr p" "p < length ?d" "fmax ?d = Inr (?d ! p)"
    and mx: "(\<forall>u\<in>set ?d. \<not> is_nan u) \<longrightarrow> (\<forall>q<length ?d. fle (?d ! q) (?d ! p))"
    by blast
  define i where "i = p div ncols actual"
  define j where "j = p mod ncols actual"
  have pn: "p < numel actual" using p(2) len by simp
  have ij: "i < nrows actual" "j < ncols actual"
    using flatten_nth(2,3)[OF assms(1) pn] by (simp_all add: i_def j_def)
  have dp: "?d ! p = diff_at rnd actual expected i j"
    using flat_diff_nth(2)[OF assms(1-4) pn] by (simp add: i_def j_def)
  have maximal: "(\<forall>i'<nrows actual. \<forall>j'<ncols actual. \<not> is_nan (diff_at rnd actual expected i' j'))
         \<longrightarrow> (\<forall>i'<nrows actual. \<forall>j'<ncols actual.
                fle (diff_at rnd actual expected i' j') (diff_at rnd actual expected i j))"
  proof (intro impI allI)
    fix i' j'
    assume nn: "\<forall>i'<nrows actual. \<forall>j'<ncols actual. \<not> is_nan (diff_at rnd actual expected i' j')"
      and b: "i' < nrows actual" "j' < ncols actual"
    have "\<forall>u\<in>set ?d. \<not> is_nan u"
    proof
      fix u assume "u \<in> set ?d"
      then obtain q where q: "q < length ?d" "u = ?d ! q" by (auto simp: in_set_conv_nth)
      then have qn: "q < numel actual" using len by simp
      have "u = diff_at rnd actual expected (q div ncols actual) (q mod ncols actual)"
        using flat_diff_nth(2)[OF assms(1-4) qn] q by simp
      then show "\<not> is_nan u" using nn flatten_nth(2,3)[OF assms(1) qn] by simp
    qed
    with mx have all: "\<forall>q<length ?d. fle (?d ! q) (?d ! p)" by blast
    have "i' * ncols actual + j' < length ?d"
      using flatten_index(1)[OF assms(1) b] len by simp
    with all have "fle (?d ! (i' * ncols actual + j')) (?d ! p)" by blast
    then show "fle (diff_at rnd actual expected i' j') (diff_at rnd actual expected i j)"
      using flat_diff_nth(3)[OF assms(1-4) b] dp by simp
  qed
  have cl: "allclose rnd (1/2) (1/2) actual expected \<longleftrightarrow>
     (\<forall>i'<nrows actual. \<forall>j'<ncols actual. isclose rnd (1/2) (1/2) (entry actual i' j') (entry expected i' j'))"
    by (rule allclose_entries[OF assms(1-4)])
  show ?thesis
  proof (cases "allclose rnd (1/2) (1/2) actual expected")
    case True
    have "analyze_tensor_differences rnd actual expected name =
        Inr (True, [LargestDifference name (diff_at rnd actual expected i j) (i, j),
                    Values (entry actual i j) (entry expected i j), Success name])"
      using True assms(3,4) p(1,3) dp
      by (simp add: analyze_tensor_differences_def unravel_index_def i_def j_def)
    then show ?thesis using True cl ij maximal by auto
  next
    case False
    have "analyze_tensor_differences rnd actual expected name =
        Inr (False, [LargestDifference name (diff_at rnd actual expected i j) (i, j),
                     Values (entry actual i j) (entry expected i j), Failure name,
                     ZerosActual name (count_where (\<lambda>v. feq v (Fin 0)) actual) (numel actual),
                     ZerosExpected name (count_where (\<lambda>v. feq v (Fin 0)) expected) (numel expected)]
                    @ (if 0 < count_where is_nan actual
                       then [NaNDetected name (count_where is_nan actual)] else []))"
      using False assms(3,4) p(1,3) dp
      by (simp add: analyze_tensor_differences_def unravel_index_def i_def j_def Let_def)
    then show ?thesis using False cl ij maximal by auto
  qed
qed

text \<open>
  The claim as stated fails: a comparison that succeeds reports neither zero counts
  nor a NaN count. On this input every operation is exact in every dtype.
\<close>

theorem success_reports_no_counts:
  "analyze_tensor_differences no_rounding
      \<lparr>ncols = 1, rws = [[Fin 1]]\<rparr> \<lparr>ncols = 1, rws = [[Fin 1]]\<rparr> ''grad_x''
     = Inr (True, [LargestDifference ''grad_x'' (Fin 0) (0, 0), Values (Fin 1) (Fin 1),
                   Success ''grad_x''])"
  by code_simp

theorem analyze_report_witness:
  "wf_tensor ex_actual \<and> wf_tensor ex_expected
   \<and> nrows ex_actual = nrows ex_expected \<and> ncols ex_actual = ncols ex_expected
   \<and> 0 < nrows ex_actual \<and> 0 < ncols ex_actual
   \<and> analyze_tensor_differences no_rounding ex_actual ex_expected ''grad_w''
       = Inr (False, [LargestDifference ''grad_w'' (Fin 7) (1, 1), Values (Fin 7) (Fin 0),
                      Failure ''grad_w'', ZerosActual ''grad_w'' 1 4, ZerosExpected ''grad_w'' 1 4])
   \<and> (\<exists>is_close log i j.
        analyze_tensor_differences no_rounding ex_actual ex_expected ''grad_w'' = Inr (is_close, log)
      \<and> i < nrows ex_actual \<and> j < ncols ex_actual
      \<and> take 2 log = [LargestDifference ''grad_w'' (diff_at no_rounding ex_actual ex_expected i j) (i, j),
                      Values (entry ex_actual i j) (entry ex_expected i j)])"
proof -
  have h: "wf_tensor ex_actual" "wf_tensor ex_expected"
    "nrows ex_actual = nrows ex_expected" "ncols ex_actual = ncols ex_expected"
    "0 < nrows ex_actual" "0 < ncols ex_actual"
    by (simp_all add: ex_actual_def ex_expected_def wf_tensor_def nrows_def)
  have e: "analyze_tensor_differences no_rounding ex_actual ex_expected ''grad_w''
       = Inr (False, [LargestDifference ''grad_w'' (Fin 7) (1, 1), Values (Fin 7) (Fin 0),
                      Failure ''grad_w'', ZerosActual ''grad_w'' 1 4, ZerosExpected ''grad_w'' 1 4])"
    by code_simp
  from analyze_report[OF h, of no_rounding "''grad_w''"] have
    "\<exists>is_close log i j.
        analyze_tensor_differences no_rounding ex_actual ex_expected ''grad_w'' = Inr (is_close, log)
      \<and> i < nrows ex_actual \<and> j < ncols ex_actual
      \<and> take 2 log = [LargestDifference ''grad_w'' (diff_at no_rounding ex_actual ex_expected i j) (i, j),
                      Values (entry ex_actual i j) (entry ex_expected i j)]"
    by blast
  with h e show ?thesis by blast
qed

text \<open>
  The rounding decides at the edge of the tolerance. For 3076 against 2050 the
  difference is 1026 and the exact tolerance is 1025.5; float16 stores the tolerance
  as 1026, so the values are close there, while without rounding they are not.
\<close>

lemma rounded_tolerance_close:
  "analyze_tensor_differences round_to_integer
      \<lparr>ncols = 1, rws = [[Fin 3076]]\<rparr> \<lparr>ncols = 1, rws = [[Fin 2050]]\<rparr> ''y''
     = Inr (True, [LargestDifference ''y'' (Fin 1026) (0, 0), Values (Fin 3076) (Fin 2050),
                   Success ''y''])"
  by code_simp

lemma exact_tolerance_not_close:
  "analyze_tensor_differences no_rounding
      \<lparr>ncols = 1, rws = [[Fin 3076]]\<rparr> \<lparr>ncols = 1, rws = [[Fin 2050]]\<rparr> ''y''
     = Inr (False, [LargestDifference ''y'' (Fin 1026) (0, 0), Values (Fin 3076) (Fin 2050),
                    Failure ''y'', ZerosActual ''y'' 0 1, ZerosExpected ''y'' 0 1])"
  by code_simp

text \<open>
  Claim C9. In the sweep over the configurations an exception raised while one
  configuration is tested is caught and that configuration is recorded as failed, with
  overall, forward and backward all False; every configuration, also after a failed
  one, contributes its own entry to the results; and the sweep returns True exactly
  when every configuration passed.
\<close>

theorem sweep_isolates_failures:
  "length (sweep_results body) = length configs
   \<and> (\<forall>i<length configs. sweep_results body ! i = config_entry i (body i (configs ! i)))
   \<and> (\<forall>i<length configs. \<forall>e. body i (configs ! i) = Inl e \<longrightarrow>
          sweep_results body ! i = (i + 1, False, False, False))
   \<and> (test_multiple_deepseek_configs body \<longleftrightarrow> (\<forall>i<length configs. config_passed (body i (configs ! i))))"
proof -
  have n: "\<forall>i<length configs. sweep_results body ! i = config_entry i (body i (configs ! i))"
    by (simp add: sweep_results_nth)
  have "test_multiple_deepseek_configs body
      \<longleftrightarrow> (\<forall>i<length configs. fst (snd (config_entry i (body i (configs ! i)))))"
    by (simp add: test_multiple_deepseek_configs_def sweep_results_nth list_all_length case_prod_unfold)
  moreover have "\<And>i out. fst (snd (config_entry i out)) \<longleftrightarrow> config_passed out"
    by (auto simp: config_entry_def config_passed_def split: sum.splits)
  ultimately show ?thesis using n
    by (simp add: sweep_results_nth config_entry_def)
qed

theorem sweep_isolates_failures_witness:
  "ex_body 1 (configs ! 1) = Inl MatmulShapeError
   \<and> sweep_results ex_body = [(1, True, True, True), (2, False, False, False), (3, True, True, True), (4, True, True, True)]
   \<and> \<not> test_multiple_deepseek_configs ex_body
   \<and> test_multiple_deepseek_configs (\<lambda>i c. Inr (True, True, True))"
proof -
  have a: "ex_body 1 (configs ! 1) = Inl MatmulShapeError" by (simp add: ex_body_def)
  have l: "length configs = 4" by (simp add: configs_def)
  note t = sweep_isolates_failures[of ex_body] sweep_isolates_failures[of "\<lambda>i c. Inr (True, True, True)"]
  have "sweep_results ex_body = [(1, True, True, True), (2, False, False, False), (3, True, True, True), (4, True, True, True)]"
    by code_simp
  moreover have "\<not> test_multiple_deepseek_configs ex_body"
    using t(1) a l by (auto simp: config_passed_def)
  moreover have "test_multiple_deepseek_configs (\<lambda>i c. Inr (True, True, True))"
    using t(2) by (simp add: config_passed_def)
  ultimately show ?thesis using a by simp
qed




end
